theory Spec2Isabelle
  imports Complex_Main "HOL-Library.Char_ord" "HOL-Library.List_Lexorder" "HOL-Library.Log_Nat"
begin

section \<open>Agency cross-sell analysis: the classification and aggregation core of app.py\<close>

text \<open>
  The script reads a spreadsheet into a pandas DataFrame, renames the column headers
  onto five canonical names, keeps the rows of three lines of business, classifies every
  customer at agency level and at carrier level, and aggregates per division.

  Conventions of the embedding.
  \<^item> A cell holds a string or is missing (\<open>None\<close>): \<open>read_excel\<close> gives a missing
    value for an empty cell. \<open>groupby\<close> leaves out the rows whose key is missing,
    \<open>nunique\<close> and \<open>first\<close> skip missing values, and a comparison with a missing value
    is false.
  \<^item> A DataFrame is a list of rows, each paired with its index label; \<open>read_excel\<close>
    labels the rows \<open>0, 1, 2, ...\<close> and a boolean mask keeps the labels of the rows it
    keeps. A Series is a list of (label, value) pairs.
  \<^item> \<open>groupby\<close> yields the groups in the sorted order of their keys, each group holding
    the rows of its key in their original order.
  \<^item> \<open>groupby(...).apply(f)\<close>, for an \<open>f\<close> that returns a Series labelled like its
    group, has three shapes. With two or more groups it is the concatenation of the
    Series. With one group the single Series is stacked into a frame of one row and one
    column per label of the group, and \<open>reset_index(level=0, drop=True)\<close> labels that
    row \<open>0\<close>. With no group it is an empty frame with the columns of the input.
  \<^item> Assigning a Series to a column aligns it on the index label; a label that the
    Series lacks gives a missing value. Assigning a frame of one column does the same
    with that column; assigning a frame of any other number of columns raises.
  \<^item> An uncaught exception ends the run: \<open>Inl Raised\<close>.
  \<^item> A float column holds IEEE doubles: a value of type \<open>flt\<close> is a finite double,
    carried as the rational it denotes, or an infinity or NaN. Every operation rounds
    its exact result to the nearest double, a tie going to the even significand. The
    exponent range is not bounded here; the numbers of this program (quotients of row
    counts, times 100) are far from both ends of it.
\<close>

subsection \<open>Rows and frames\<close>

type_synonym cell = "string option"

record PolicyRecord =
  Division :: cell
  Customer_Name :: cell
  Line_of_Business :: cell
  Carrier :: cell
  Policy_Number :: cell

record ClassifiedRecord =
  policy :: PolicyRecord
  Account_Type :: cell
  Carrier_Account_Type :: cell

type_synonym 'a frame = "(nat \<times> 'a) list"

type_synonym 'a series = "(nat \<times> 'a) list"

datatype exn = Raised

subsection \<open>Column headers (lines 62 to 80)\<close>

definition isspace :: "char \<Rightarrow> bool" where
  "isspace c = ((of_char c :: nat) \<in> set [9, 10, 11, 12, 13, 28, 29, 30, 31, 32, 133, 160])"

definition strip :: "string \<Rightarrow> string" where
  "strip s = rev (dropWhile isspace (rev (dropWhile isspace s)))"

definition column_map :: "(string \<times> string list) list" where
  "column_map =
    [(''Division'', [''Division'', ''Agency'', ''Agency Name'', ''Policy Division'']),
     (''Customer Name'', [''Customer Name'', ''Client Name'']),
     (''Line of Business/Non-Premium'', [''Line of Business/Non-Premium'', ''Line of Business'']),
     (''Carrier'', [''Carrier'', ''Parent Company'']),
     (''Policy Number'', [''Policy Number''])]"

text \<open>\<open>df.rename(columns={col: std_col})\<close>: every header equal to \<open>col\<close> becomes \<open>std_col\<close>.\<close>

definition rename :: "string \<Rightarrow> string \<Rightarrow> string list \<Rightarrow> string list" where
  "rename col std_col cols = map (\<lambda>c. if c = col then std_col else c) cols"

text \<open>The inner loop: the first variant among the headers is renamed, then \<open>break\<close>.\<close>

fun rename_first :: "string \<Rightarrow> string list \<Rightarrow> string list \<Rightarrow> string list" where
  "rename_first std_col [] cols = cols"
| "rename_first std_col (col # variants) cols =
     (if col \<in> set cols then rename col std_col cols else rename_first std_col variants cols)"

definition normalize_columns :: "string list \<Rightarrow> string list" where
  "normalize_columns headers =
     foldl (\<lambda>cols (std_col, variants). rename_first std_col variants cols)
       (map strip headers) column_map"

definition required_cols :: "string list" where
  "required_cols =
    [''Division'', ''Customer Name'', ''Line of Business/Non-Premium'', ''Carrier'',
     ''Policy Number'']"

text \<open>
  The columns that lines 82 to 105 read by name. When two columns carry one of these
  names, selecting by that name yields a frame instead of a Series, and the mask of
  line 82 or the \<open>groupby\<close> on that name (lines 96, 97 and 99) raises.
\<close>

definition read_by_name :: "string list" where
  "read_by_name =
    [''Division'', ''Customer Name'', ''Line of Business/Non-Premium'', ''Carrier'']"

definition duplicated :: "string list \<Rightarrow> string \<Rightarrow> bool" where
  "duplicated cols c = (1 < count_list cols c)"

text \<open>
  The cell of a row under a header. Of the five names only the policy number, which
  lines 82 to 105 never read, can reach this point twice; the record keeps its first
  column.
\<close>

definition cell_of :: "string list \<Rightarrow> cell list \<Rightarrow> string \<Rightarrow> cell" where
  "cell_of cols r c = (case map_of (zip cols r) c of Some v \<Rightarrow> v | None \<Rightarrow> None)"

definition to_record :: "string list \<Rightarrow> cell list \<Rightarrow> PolicyRecord" where
  "to_record cols r =
     \<lparr>Division = cell_of cols r ''Division'',
      Customer_Name = cell_of cols r ''Customer Name'',
      Line_of_Business = cell_of cols r ''Line of Business/Non-Premium'',
      Carrier = cell_of cols r ''Carrier'',
      Policy_Number = cell_of cols r ''Policy Number''\<rparr>"

text \<open>The rows of a freshly read table carry the labels \<open>0, 1, 2, ...\<close>.\<close>

definition range_index :: "'a list \<Rightarrow> 'a frame" where
  "range_index rows = zip [0 ..< length rows] rows"

subsection \<open>Line-of-business filter (lines 82 to 84)\<close>

definition lob_allowed :: "string list" where
  "lob_allowed = [''Homeowners'', ''Private Passenger Auto'', ''Mobile Homeowners'']"

definition filter_lob :: "PolicyRecord frame \<Rightarrow> PolicyRecord frame" where
  "filter_lob df = filter (\<lambda>(i, r). Line_of_Business r \<in> set (map Some lob_allowed)) df"

subsection \<open>Grouping\<close>

text \<open>The keys of the groups: the distinct values of the key that are not missing, sorted.\<close>

definition group_keys :: "('a \<Rightarrow> cell) \<Rightarrow> 'a frame \<Rightarrow> string list" where
  "group_keys key df = sort (remdups (List.map_filter (\<lambda>(i, r). key r) df))"

definition group_of :: "('a \<Rightarrow> cell) \<Rightarrow> 'a frame \<Rightarrow> string \<Rightarrow> 'a frame" where
  "group_of key df k = filter (\<lambda>(i, r). key r = Some k) df"

definition groupby :: "('a \<Rightarrow> cell) \<Rightarrow> 'a frame \<Rightarrow> (string \<times> 'a frame) list" where
  "groupby key df = map (\<lambda>k. (k, group_of key df k)) (group_keys key df)"

text \<open>
  \<open>groupby(key).apply(f).reset_index(level=0, drop=True)\<close> in its three shapes. The
  stacked frame is given by its columns: the labels of the single group, each with
  the one value of its column.
\<close>

datatype 'b applied = Empty_Frame | Stacked "'b series" | Concatenated "'b series"

definition groupby_apply :: "('a \<Rightarrow> cell) \<Rightarrow> ('a frame \<Rightarrow> 'b series) \<Rightarrow> 'a frame \<Rightarrow> 'b applied" where
  "groupby_apply key f df =
     (case groupby key df of
        [] \<Rightarrow> Empty_Frame
      | [(k, grp)] \<Rightarrow> Stacked (f grp)
      | groups \<Rightarrow> Concatenated (concat (map (\<lambda>(k, grp). f grp) groups)))"

text \<open>
  \<open>df[name] = value\<close>: the Series that is aligned on the labels of \<open>df\<close>, or the
  exception. The empty frame has the five or more columns of \<open>df\<close>; the stacked frame
  has one row, labelled \<open>0\<close>.
\<close>

fun assigned_column :: "'b applied \<Rightarrow> exn + 'b series" where
  "assigned_column Empty_Frame = Inl Raised"
| "assigned_column (Stacked [(i, v)]) = Inr [(0, v)]"
| "assigned_column (Stacked cols) = Inl Raised"
| "assigned_column (Concatenated s) = Inr s"

subsection \<open>Customer classifier (lines 86 to 97)\<close>

text \<open>The label that \<open>classify\<close> repeats for every row of a customer's group.\<close>

definition account_label :: "PolicyRecord frame \<Rightarrow> string" where
  "account_label grp =
     (let types = set (map (\<lambda>(i, r). Line_of_Business r) grp)
      in if card types > 1 then ''Cross-Sold'' else ''Monoline'')"

definition classify :: "PolicyRecord frame \<Rightarrow> string series" where
  "classify grp = zip (map fst grp) (replicate (length grp) (account_label grp))"

text \<open>The label that \<open>classify_carrier\<close> repeats for every row of a customer's group.\<close>

definition carrier_label :: "PolicyRecord frame \<Rightarrow> string" where
  "carrier_label grp =
     (let lines_by_carrier =
            map (\<lambda>(c, g). set (map (\<lambda>(i, r). Line_of_Business r) g)) (groupby Carrier grp)
      in if list_ex (\<lambda>lines. card lines > 1) lines_by_carrier
         then ''Cross-Sold'' else ''Monoline'')"

definition classify_carrier :: "PolicyRecord frame \<Rightarrow> string series" where
  "classify_carrier grp = zip (map fst grp) (replicate (length grp) (carrier_label grp))"

text \<open>The two column assignments of lines 96 and 97, aligned on the index label.\<close>

definition add_account_types :: "PolicyRecord frame \<Rightarrow> exn + ClassifiedRecord frame" where
  "add_account_types df =
     (case assigned_column (groupby_apply Customer_Name classify df) of
        Inl e \<Rightarrow> Inl e
      | Inr account_type \<Rightarrow>
          (case assigned_column (groupby_apply Customer_Name classify_carrier df) of
             Inl e \<Rightarrow> Inl e
           | Inr carrier_account_type \<Rightarrow>
               Inr (map (\<lambda>(i, r). (i, \<lparr>policy = r,
                                         Account_Type = map_of account_type i,
                                         Carrier_Account_Type = map_of carrier_account_type i\<rparr>))
                      df)))"

subsection \<open>Float columns\<close>

text \<open>Rounding to the nearest integer, a tie going to the even neighbour.\<close>

definition rint :: "rat \<Rightarrow> int" where
  "rint q =
     (let f = \<lfloor>q\<rfloor>; d = q - of_int f
      in if d < 1 / 2 then f else if 1 / 2 < d then f + 1 else if even f then f else f + 1)"

text \<open>The binary exponent of a rational other than 0: \<open>2 powi e \<le> \<bar>q\<bar> < 2 powi (e + 1)\<close>.\<close>

definition exponent :: "rat \<Rightarrow> int" where
  "exponent q =
     (let (a, b) = quotient_of \<bar>q\<bar>; k = bitlen a - bitlen b
      in if 2 powi k \<le> \<bar>q\<bar> then k else k - 1)"

text \<open>The nearest double: 53 significant bits, a tie going to the even significand.\<close>

definition fl :: "rat \<Rightarrow> rat" where
  "fl q =
     (if q = 0 then 0
      else (let e = exponent q - 52 in of_int (rint (q / 2 powi e)) * 2 powi e))"

datatype flt = Fin rat | PosInf | NegInf | NaN

text \<open>
  Division of two integer columns: both are converted to doubles and divided; a zero
  divisor raises nothing.
\<close>

definition col_div :: "nat \<Rightarrow> nat \<Rightarrow> flt" where
  "col_div a b =
     (if b = 0 then (if a = 0 then NaN else PosInf)
      else Fin (fl (fl (of_nat a) / fl (of_nat b))))"

fun times100 :: "flt \<Rightarrow> flt" where
  "times100 (Fin q) = Fin (fl (q * 100))"
| "times100 x = x"

text \<open>
  \<open>.round(2)\<close> on a float column: multiply by 100, round to the nearest integer, divide
  by 100, each step in doubles.
\<close>

fun round2 :: "flt \<Rightarrow> flt" where
  "round2 (Fin q) = Fin (fl (of_int (rint (fl (q * 100))) / 100))"
| "round2 x = x"

fun hundred_minus :: "flt \<Rightarrow> flt" where
  "hundred_minus (Fin q) = Fin (fl (100 - q))"
| "hundred_minus PosInf = NegInf"
| "hundred_minus NegInf = PosInf"
| "hundred_minus NaN = NaN"

subsection \<open>Agency aggregator (lines 99 to 105)\<close>

record SummaryRow =
  Division_key :: string
  Total_Clients :: nat
  Monoline :: nat
  Cross_Sold :: nat
  pct_Monoline :: flt
  pct_Cross_Sold :: flt

text \<open>\<open>nunique\<close>: the number of distinct values that are not missing.\<close>

definition nunique :: "cell list \<Rightarrow> nat" where
  "nunique xs = card (set (filter (\<lambda>x. x \<noteq> None) xs))"

text \<open>\<open>(x == v).sum()\<close>: the number of rows of the group whose value is \<open>v\<close>.\<close>

definition count_eq :: "string \<Rightarrow> cell list \<Rightarrow> nat" where
  "count_eq v xs = length (filter (\<lambda>x. x = Some v) xs)"

text \<open>Lines 104 and 105, for one row of the summary table.\<close>

definition percent_columns :: "nat \<Rightarrow> nat \<Rightarrow> flt \<times> flt" where
  "percent_columns monoline total_clients =
     (let pct = round2 (times100 (col_div monoline total_clients))
      in (pct, hundred_minus pct))"

definition summary_row :: "string \<Rightarrow> ClassifiedRecord frame \<Rightarrow> SummaryRow" where
  "summary_row d grp =
     (let total_clients = nunique (map (\<lambda>(i, r). Customer_Name (policy r)) grp);
          monoline = count_eq ''Monoline'' (map (\<lambda>(i, r). Account_Type r) grp);
          cross_sold = count_eq ''Cross-Sold'' (map (\<lambda>(i, r). Account_Type r) grp);
          (pct_m, pct_c) = percent_columns monoline total_clients
      in \<lparr>Division_key = d, Total_Clients = total_clients, Monoline = monoline,
          Cross_Sold = cross_sold, pct_Monoline = pct_m, pct_Cross_Sold = pct_c\<rparr>)"

definition agency_summary :: "ClassifiedRecord frame \<Rightarrow> SummaryRow list" where
  "agency_summary df =
     map (\<lambda>(d, grp). summary_row d grp) (groupby (\<lambda>r. Division (policy r)) df)"

subsection \<open>The counts of the selected division (lines 111 to 124)\<close>

text \<open>\<open>GroupBy.first()\<close>: the first value of the group that is not missing.\<close>

definition first_valid :: "cell list \<Rightarrow> cell" where
  "first_valid xs = (case filter (\<lambda>x. x \<noteq> None) xs of [] \<Rightarrow> None | x # _ \<Rightarrow> x)"

text \<open>\<open>df.groupby("Customer Name")[col].first()\<close>, one value for each customer.\<close>

definition first_per_customer ::
  "(ClassifiedRecord \<Rightarrow> cell) \<Rightarrow> ClassifiedRecord frame \<Rightarrow> cell list" where
  "first_per_customer col df =
     map (\<lambda>(k, g). first_valid (map (\<lambda>(i, r). col r) g))
       (groupby (\<lambda>r. Customer_Name (policy r)) df)"

record DivisionView =
  agency_df :: "ClassifiedRecord frame"
  total_clients :: nat
  total_monoline :: nat
  total_cross_sold :: nat
  total_carrier_mono :: nat
  total_carrier_cross :: nat

text \<open>
  Nothing is computed for an empty selection; for a division without rows the script
  only prints a notice. \<open>value_counts().get(v, 0)\<close> counts the customers whose first
  value is \<open>v\<close>.
\<close>

definition division_view :: "string \<Rightarrow> ClassifiedRecord frame \<Rightarrow> DivisionView option" where
  "division_view selected_agency df =
     (if selected_agency = [] then None
      else
        (let adf = filter (\<lambda>(i, r). Division (policy r) = Some selected_agency) df
         in if adf = [] then None
            else
              (let account_counts = first_per_customer Account_Type adf;
                   carrier_counts = first_per_customer Carrier_Account_Type adf
               in Some \<lparr>agency_df = adf,
                         total_clients = nunique (map (\<lambda>(i, r). Customer_Name (policy r)) adf),
                         total_monoline = count_eq ''Monoline'' account_counts,
                         total_cross_sold = count_eq ''Cross-Sold'' account_counts,
                         total_carrier_mono = count_eq ''Monoline'' carrier_counts,
                         total_carrier_cross = count_eq ''Cross-Sold'' carrier_counts\<rparr>)))"

subsection \<open>The load (lines 60 to 105)\<close>

text \<open>Lines 82 to 105 on a frame of policy records.\<close>

definition analyse ::
  "PolicyRecord frame \<Rightarrow> exn + (ClassifiedRecord frame \<times> SummaryRow list)" where
  "analyse raw =
     (case add_account_types (filter_lob raw) of
        Inl e \<Rightarrow> Inl e
      | Inr df \<Rightarrow> Inr (df, agency_summary df))"

text \<open>The same on the records of a freshly read table.\<close>

definition run :: "PolicyRecord list \<Rightarrow> exn + (ClassifiedRecord frame \<times> SummaryRow list)" where
  "run recs = analyse (range_index recs)"

text \<open>
  The whole load, from the headers and the rows of cells of the uploaded sheet: the
  error message that is displayed, or else the outcome of lines 82 to 105.
\<close>

definition load ::
  "string list \<Rightarrow> cell list list
     \<Rightarrow> string + (exn + (ClassifiedRecord frame \<times> SummaryRow list))" where
  "load headers rows =
     (let cols = normalize_columns headers
      in if \<not> list_all (\<lambda>col. col \<in> set cols) required_cols
         then Inl ''Missing one or more required columns.''
         else Inr (if list_ex (duplicated cols) read_by_name then Inl Raised
                   else run (map (to_record cols) rows)))"

subsection \<open>Vocabulary of the specification\<close>

text \<open>The canonical fields that are absent from a list of headers.\<close>

definition missing_fields :: "string list \<Rightarrow> string list" where
  "missing_fields cols = filter (\<lambda>col. col \<notin> set cols) required_cols"

text \<open>A message names a field when the field's name occurs in it.\<close>

fun starts_with :: "string \<Rightarrow> string \<Rightarrow> bool" where
  "starts_with t [] = True"
| "starts_with [] (a # s) = False"
| "starts_with (b # t) (a # s) = (a = b \<and> starts_with t s)"

fun names_field :: "string \<Rightarrow> string \<Rightarrow> bool" where
  "names_field [] s = (s = [])"
| "names_field (b # t) s = (starts_with (b # t) s \<or> names_field t s)"

text \<open>The working set: the records that pass the filter, whatever their division.\<close>

definition working_set :: "PolicyRecord list \<Rightarrow> PolicyRecord list" where
  "working_set recs = filter (\<lambda>p. Line_of_Business p \<in> set (map Some lob_allowed)) recs"

text \<open>The records of a customer in the working set, over all divisions.\<close>

definition records_of :: "PolicyRecord list \<Rightarrow> string \<Rightarrow> PolicyRecord list" where
  "records_of recs n = filter (\<lambda>p. Customer_Name p = Some n) (working_set recs)"

text \<open>The distinct lines of business of a customer.\<close>

definition lines_of :: "PolicyRecord list \<Rightarrow> string \<Rightarrow> string set" where
  "lines_of recs n = set (List.map_filter Line_of_Business (records_of recs n))"

text \<open>The distinct lines of business that a customer holds with one carrier.\<close>

definition lines_at :: "PolicyRecord list \<Rightarrow> string \<Rightarrow> string \<Rightarrow> string set" where
  "lines_at recs n c =
     set (List.map_filter Line_of_Business
            (filter (\<lambda>p. Carrier p = Some c) (records_of recs n)))"

text \<open>The distinct lines of business of a customer inside one division.\<close>

definition lines_in_division :: "PolicyRecord list \<Rightarrow> string \<Rightarrow> cell \<Rightarrow> string set" where
  "lines_in_division recs n d =
     set (List.map_filter Line_of_Business
            (filter (\<lambda>p. Division p = d) (records_of recs n)))"

text \<open>The exact percentage of a count in a total.\<close>

definition exact_percent :: "nat \<Rightarrow> nat \<Rightarrow> rat" where
  "exact_percent m t = of_nat m / of_nat t * 100"

subsection \<open>Sample books\<close>

definition row :: "string \<Rightarrow> string \<Rightarrow> string \<Rightarrow> string \<Rightarrow> string \<Rightarrow> PolicyRecord" where
  "row d n l c k =
     \<lparr>Division = Some d, Customer_Name = Some n, Line_of_Business = Some l,
      Carrier = Some c, Policy_Number = Some k\<rparr>"

definition typed :: "PolicyRecord \<Rightarrow> string \<Rightarrow> string \<Rightarrow> ClassifiedRecord" where
  "typed p a ca = \<lparr>policy = p, Account_Type = Some a, Carrier_Account_Type = Some ca\<rparr>"

definition untyped :: "PolicyRecord \<Rightarrow> ClassifiedRecord" where
  "untyped p = \<lparr>policy = p, Account_Type = None, Carrier_Account_Type = None\<rparr>"

definition pat_north :: PolicyRecord where
  "pat_north = row ''North'' ''Pat'' ''Homeowners'' ''CarrierA'' ''P1''"

definition pat_south :: PolicyRecord where
  "pat_south = row ''South'' ''Pat'' ''Private Passenger Auto'' ''CarrierB'' ''P2''"

definition bob_first :: PolicyRecord where
  "bob_first = row ''North'' ''Bob'' ''Homeowners'' ''CarrierA'' ''P3''"

definition bob_second :: PolicyRecord where
  "bob_second = row ''North'' ''Bob'' ''Homeowners'' ''CarrierA'' ''P4''"

definition alice_home :: PolicyRecord where
  "alice_home = row ''North'' ''Alice'' ''Homeowners'' ''CarrierA'' ''P5''"

definition alice_auto :: PolicyRecord where
  "alice_auto = row ''North'' ''Alice'' ''Private Passenger Auto'' ''CarrierA'' ''P6''"

definition carol_commercial :: PolicyRecord where
  "carol_commercial = row ''North'' ''Carol'' ''Commercial Auto'' ''CarrierA'' ''P7''"

definition carol_lower_case :: PolicyRecord where
  "carol_lower_case = row ''North'' ''Carol'' ''homeowners'' ''CarrierB'' ''P8''"

definition nameless_south :: PolicyRecord where
  "nameless_south = (row ''South'' [] ''Homeowners'' ''CarrierA'' ''P9'')\<lparr>Customer_Name := None\<rparr>"

definition two_division_book :: "PolicyRecord list" where
  "two_division_book = [pat_north, pat_south, bob_first, bob_second]"

definition north_book :: "PolicyRecord list" where
  "north_book = [alice_home, alice_auto, bob_first]"

definition unfiltered_book :: "PolicyRecord list" where
  "unfiltered_book = [alice_home, carol_commercial, alice_auto, carol_lower_case, bob_first]"

definition sheet_headers :: "string list" where
  "sheet_headers = [''Agency'', ''Client Name '', ''Line of Business'', ''Parent Company'']"

definition sheet_rows :: "cell list list" where
  "sheet_rows = [[Some ''North'', Some ''Pat'', Some ''Homeowners'', Some ''CarrierA''],
                 [Some ''North'', Some ''Bob'', Some ''Homeowners'', Some ''CarrierA'']]"

definition two_division_classified :: "ClassifiedRecord frame" where
  "two_division_classified =
     [(0, typed pat_north ''Cross-Sold'' ''Monoline''),
      (1, typed pat_south ''Cross-Sold'' ''Monoline''),
      (2, typed bob_first ''Monoline'' ''Monoline''),
      (3, typed bob_second ''Monoline'' ''Monoline'')]"

definition two_division_summary :: "SummaryRow list" where
  "two_division_summary =
     [\<lparr>Division_key = ''North'', Total_Clients = 2, Monoline = 2, Cross_Sold = 1,
        pct_Monoline = Fin 100, pct_Cross_Sold = Fin 0\<rparr>,
      \<lparr>Division_key = ''South'', Total_Clients = 1, Monoline = 0, Cross_Sold = 1,
        pct_Monoline = Fin 0, pct_Cross_Sold = Fin 100\<rparr>]"

definition north_classified :: "ClassifiedRecord frame" where
  "north_classified =
     [(0, typed alice_home ''Cross-Sold'' ''Cross-Sold''),
      (1, typed alice_auto ''Cross-Sold'' ''Cross-Sold''),
      (2, typed bob_first ''Monoline'' ''Monoline'')]"

definition unfiltered_classified :: "ClassifiedRecord frame" where
  "unfiltered_classified =
     [(0, typed alice_home ''Cross-Sold'' ''Cross-Sold''),
      (2, typed alice_auto ''Cross-Sold'' ''Cross-Sold''),
      (4, typed bob_first ''Monoline'' ''Monoline'')]"

definition north_summary :: "SummaryRow list" where
  "north_summary =
     [\<lparr>Division_key = ''North'', Total_Clients = 2, Monoline = 1, Cross_Sold = 2,
        pct_Monoline = Fin 50, pct_Cross_Sold = Fin 50\<rparr>]"

section \<open>Properties\<close>

subsection \<open>Grouping and the assigned column\<close>

lemma zip_fst_replicate:
  "zip (map fst g) (replicate (length g) x) = map (\<lambda>(j, p). (j, x)) g"
  by (induction g) auto

lemma classify_const: "classify g = map (\<lambda>(j, p). (j, account_label g)) g"
  by (simp add: classify_def zip_fst_replicate)

lemma classify_carrier_const: "classify_carrier g = map (\<lambda>(j, p). (j, carrier_label g)) g"
  by (simp add: classify_carrier_def zip_fst_replicate)

lemma set_map_filter: "set (List.map_filter f xs) = {y. \<exists>x \<in> set xs. f x = Some y}"
  by (induction xs) (auto split: option.splits)

lemma set_group_keys:
  "set (group_keys key df) = {k. \<exists>i r. (i, r) \<in> set df \<and> key r = Some k}"
  by (force simp: group_keys_def set_map_filter)

lemma distinct_group_keys: "distinct (group_keys key df)"
  by (simp add: group_keys_def)

lemma in_group_of: "(i, r) \<in> set (group_of key df k) \<longleftrightarrow> (i, r) \<in> set df \<and> key r = Some k"
  by (auto simp: group_of_def)

lemma group_nonempty:
  assumes "k \<in> set (group_keys key df)" shows "group_of key df k \<noteq> []"
proof -
  from assms obtain i r where "(i, r) \<in> set df" "key r = Some k"
    by (auto simp: set_group_keys)
  then have "(i, r) \<in> set (group_of key df k)" by (simp add: in_group_of)
  then show ?thesis by auto
qed

lemma group_of_empty:
  assumes "k \<notin> set (group_keys key df)" shows "group_of key df k = []"
proof -
  have "\<forall>x \<in> set df. \<not> (case x of (i, r) \<Rightarrow> key r = Some k)"
    using assms by (auto simp: set_group_keys)
  then show ?thesis by (simp add: group_of_def filter_empty_conv)
qed

lemma in_concat_groups:
  assumes "\<And>g. f g = map (\<lambda>(j, p). (j, v g)) g"
  shows "(i, x) \<in> set (concat (map (\<lambda>(k, grp). f grp) (groupby key df)))
           \<longleftrightarrow> (\<exists>r k. (i, r) \<in> set df \<and> key r = Some k \<and> x = v (group_of key df k))"
proof
  assume "(i, x) \<in> set (concat (map (\<lambda>(k, grp). f grp) (groupby key df)))"
  then obtain k where "(i, x) \<in> set (f (group_of key df k))"
    by (auto simp: groupby_def)
  then obtain p where "(i, p) \<in> set (group_of key df k)" and x: "x = v (group_of key df k)"
    by (auto simp: assms)
  then have "(i, p) \<in> set df" and "key p = Some k" by (simp_all add: in_group_of)
  with x show "\<exists>r k. (i, r) \<in> set df \<and> key r = Some k \<and> x = v (group_of key df k)" by blast
next
  assume "\<exists>r k. (i, r) \<in> set df \<and> key r = Some k \<and> x = v (group_of key df k)"
  then obtain r k where r: "(i, r) \<in> set df" "key r = Some k"
    and x: "x = v (group_of key df k)" by blast
  from r have k: "k \<in> set (group_keys key df)" by (auto simp: set_group_keys)
  from r have "(i, r) \<in> set (group_of key df k)" by (simp add: in_group_of)
  then have "(i, x) \<in> set (f (group_of key df k))" by (force simp: assms x)
  with k show "(i, x) \<in> set (concat (map (\<lambda>(k, grp). f grp) (groupby key df)))"
    by (auto simp: groupby_def)
qed

lemma map_of_unique:
  assumes "(i, y) \<in> set l" and "\<And>y'. (i, y') \<in> set l \<Longrightarrow> y' = y"
  shows "map_of l i = Some y"
proof -
  obtain z where z: "map_of l i = Some z"
    using weak_map_of_SomeI [OF assms(1)] by blast
  then have "(i, z) \<in> set l" by (rule map_of_SomeD)
  with assms(2) z show ?thesis by simp
qed

lemma map_of_concat_groups:
  assumes f: "\<And>g. f g = map (\<lambda>(j, p). (j, v g)) g"
    and d: "distinct (map fst df)" and r: "(i, r) \<in> set df"
  shows "map_of (concat (map (\<lambda>(k, grp). f grp) (groupby key df))) i
           = map_option (\<lambda>k. v (group_of key df k)) (key r)"
proof (cases "key r")
  case None
  have "(i, y) \<notin> set (concat (map (\<lambda>(k, grp). f grp) (groupby key df)))" for y
  proof
    assume "(i, y) \<in> set (concat (map (\<lambda>(k, grp). f grp) (groupby key df)))"
    then obtain r' k where r': "(i, r') \<in> set df" "key r' = Some k"
      unfolding in_concat_groups [of f v, OF f] by blast
    from d r r'(1) have "r' = r" by (metis map_of_eq_Some_iff option.inject)
    with r'(2) None show False by simp
  qed
  then have "map_of (concat (map (\<lambda>(k, grp). f grp) (groupby key df))) i = None"
    by (meson map_of_SomeD not_Some_eq)
  with None show ?thesis by simp
next
  case (Some k)
  have "map_of (concat (map (\<lambda>(k, grp). f grp) (groupby key df))) i
          = Some (v (group_of key df k))"
  proof (rule map_of_unique)
    show "(i, v (group_of key df k)) \<in> set (concat (map (\<lambda>(k, grp). f grp) (groupby key df)))"
      unfolding in_concat_groups [of f v, OF f] using r Some by blast
  next
    fix y' assume "(i, y') \<in> set (concat (map (\<lambda>(k, grp). f grp) (groupby key df)))"
    then obtain r' k' where r': "(i, r') \<in> set df" "key r' = Some k'"
      and y': "y' = v (group_of key df k')"
      unfolding in_concat_groups [of f v, OF f] by blast
    from d r r'(1) have "r' = r" by (metis map_of_eq_Some_iff option.inject)
    with r'(2) Some have "k' = k" by simp
    with y' show "y' = v (group_of key df k)" by simp
  qed
  with Some show ?thesis by simp
qed

text \<open>The shapes in which the assignment succeeds.\<close>

lemma assigned_column_cases:
  assumes f: "\<And>g. f g = map (\<lambda>(j, p). (j, v g)) g"
    and s: "assigned_column (groupby_apply key f df) = Inr s"
  shows "(2 \<le> length (group_keys key df)
            \<and> s = concat (map (\<lambda>(k, grp). f grp) (groupby key df)))
       \<or> (\<exists>k j r. group_keys key df = [k] \<and> group_of key df k = [(j, r)]
            \<and> s = [(0, v [(j, r)])])"
proof (cases "group_keys key df")
  case Nil
  with s show ?thesis by (simp add: groupby_apply_def groupby_def)
next
  case (Cons k ks)
  show ?thesis
  proof (cases ks)
    case Nil
    with Cons have keys: "group_keys key df = [k]" by simp
    then have ga: "groupby_apply key f df = Stacked (f (group_of key df k))"
      by (simp add: groupby_apply_def groupby_def)
    show ?thesis
    proof (cases "group_of key df k")
      case Nil
      with s ga show ?thesis by (simp add: f)
    next
      case (Cons a g')
      obtain j r where a: "a = (j, r)" by (cases a)
      show ?thesis
      proof (cases g')
        case Nil
        with Cons a have g: "group_of key df k = [(j, r)]" by simp
        with s ga have "s = [(0, v [(j, r)])]" by (simp add: f)
        with keys g show ?thesis by blast
      next
        case (Cons b g'')
        obtain j' r' where "b = (j', r')" by (cases b)
        with s ga \<open>group_of key df k = a # g'\<close> a Cons show ?thesis by (simp add: f)
      qed
    qed
  next
    case (Cons k' ks')
    with \<open>group_keys key df = k # ks\<close> have keys: "group_keys key df = k # k' # ks'" by simp
    then have "groupby_apply key f df
                 = Concatenated (concat (map (\<lambda>(k, grp). f grp) (groupby key df)))"
      by (simp add: groupby_apply_def groupby_def)
    with s keys show ?thesis by simp
  qed
qed

subsection \<open>Labels of a group\<close>

lemma add_account_types_cases:
  assumes a: "add_account_types df = Inr cdf" and d: "distinct (map fst df)"
  shows "(2 \<le> length (group_keys Customer_Name df)
          \<and> cdf = map (\<lambda>(i, r). (i, \<lparr>policy = r,
                     Account_Type = map_option (\<lambda>n. account_label (group_of Customer_Name df n))
                                      (Customer_Name r),
                     Carrier_Account_Type =
                       map_option (\<lambda>n. carrier_label (group_of Customer_Name df n))
                         (Customer_Name r)\<rparr>)) df)
       \<or> (\<exists>k j r0. group_keys Customer_Name df = [k]
            \<and> group_of Customer_Name df k = [(j, r0)]
            \<and> cdf = map (\<lambda>(i, r). (i, \<lparr>policy = r,
                     Account_Type = (if i = 0 then Some (account_label [(j, r0)]) else None),
                     Carrier_Account_Type =
                       (if i = 0 then Some (carrier_label [(j, r0)]) else None)\<rparr>)) df)"
proof -
  from a obtain s1 s2
    where s1: "assigned_column (groupby_apply Customer_Name classify df) = Inr s1"
      and s2: "assigned_column (groupby_apply Customer_Name classify_carrier df) = Inr s2"
      and cdf: "cdf = map (\<lambda>(i, r). (i, \<lparr>policy = r, Account_Type = map_of s1 i,
                                          Carrier_Account_Type = map_of s2 i\<rparr>)) df"
    by (auto simp: add_account_types_def split: sum.splits)
  note c1 = assigned_column_cases [of classify account_label, OF classify_const s1]
  note c2 = assigned_column_cases [of classify_carrier carrier_label, OF classify_carrier_const s2]
  show ?thesis
  proof (cases "2 \<le> length (group_keys Customer_Name df)")
    case True
    with c1 have e1: "s1 = concat (map (\<lambda>(k, grp). classify grp) (groupby Customer_Name df))"
      by auto
    from True c2
    have e2: "s2 = concat (map (\<lambda>(k, grp). classify_carrier grp) (groupby Customer_Name df))"
      by auto
    have m1: "map_of s1 i = map_option (\<lambda>n. account_label (group_of Customer_Name df n))
                              (Customer_Name r)" if "(i, r) \<in> set df" for i r
      unfolding e1
      by (rule map_of_concat_groups [of classify account_label, OF classify_const d that])
    have m2: "map_of s2 i = map_option (\<lambda>n. carrier_label (group_of Customer_Name df n))
                              (Customer_Name r)" if "(i, r) \<in> set df" for i r
      unfolding e2
      by (rule map_of_concat_groups [of classify_carrier carrier_label,
                                      OF classify_carrier_const d that])
    have "cdf = map (\<lambda>(i, r). (i, \<lparr>policy = r,
                     Account_Type = map_option (\<lambda>n. account_label (group_of Customer_Name df n))
                                      (Customer_Name r),
                     Carrier_Account_Type =
                       map_option (\<lambda>n. carrier_label (group_of Customer_Name df n))
                         (Customer_Name r)\<rparr>)) df"
      unfolding cdf by (rule map_cong) (auto simp: m1 m2)
    with True show ?thesis by blast
  next
    case False
    with c1 obtain k j r0 where k: "group_keys Customer_Name df = [k]"
      and g: "group_of Customer_Name df k = [(j, r0)]"
      and e1: "s1 = [(0, account_label [(j, r0)])]" by auto
    from False c2 obtain k' j' r0' where k': "group_keys Customer_Name df = [k']"
      and g': "group_of Customer_Name df k' = [(j', r0')]"
      and e2: "s2 = [(0, carrier_label [(j', r0')])]" by auto
    from k k' have "k' = k" by simp
    with g g' have "j' = j" "r0' = r0" by simp_all
    with e2 have e2': "s2 = [(0, carrier_label [(j, r0)])]" by simp
    have "cdf = map (\<lambda>(i, r). (i, \<lparr>policy = r,
                     Account_Type = (if i = 0 then Some (account_label [(j, r0)]) else None),
                     Carrier_Account_Type =
                       (if i = 0 then Some (carrier_label [(j, r0)]) else None)\<rparr>)) df"
      unfolding cdf e1 e2' by (rule map_cong) auto
    with k g show ?thesis by blast
  qed
qed

text \<open>Line-of-business cells of a group.\<close>

lemma lob_cells: "(\<lambda>(i, r). Line_of_Business r) ` set g = Line_of_Business ` snd ` set g"
  by force

lemma carrier_label_iff:
  "carrier_label g = ''Cross-Sold''
     \<longleftrightarrow> (\<exists>c. 1 < card (Line_of_Business ` snd ` set (group_of Carrier g c)))"
proof -
  have "carrier_label g = ''Cross-Sold''
          \<longleftrightarrow> (\<exists>c \<in> set (group_keys Carrier g).
                  1 < card (Line_of_Business ` snd ` set (group_of Carrier g c)))"
    by (simp add: carrier_label_def Let_def list_ex_iff groupby_def lob_cells)
  also have "\<dots> \<longleftrightarrow> (\<exists>c. 1 < card (Line_of_Business ` snd ` set (group_of Carrier g c)))"
  proof
    assume "\<exists>c. 1 < card (Line_of_Business ` snd ` set (group_of Carrier g c))"
    then obtain c where c: "1 < card (Line_of_Business ` snd ` set (group_of Carrier g c))"
      by blast
    have "c \<in> set (group_keys Carrier g)"
    proof (rule ccontr)
      assume "c \<notin> set (group_keys Carrier g)"
      then have "group_of Carrier g c = []" by (rule group_of_empty)
      with c show False by simp
    qed
    with c show "\<exists>c \<in> set (group_keys Carrier g).
                    1 < card (Line_of_Business ` snd ` set (group_of Carrier g c))" by blast
  qed blast
  finally show ?thesis .
qed

lemma carrier_label_values: "carrier_label g = ''Cross-Sold'' \<or> carrier_label g = ''Monoline''"
  by (simp add: carrier_label_def Let_def)

lemma account_label_iff:
  "account_label g = ''Cross-Sold'' \<longleftrightarrow> 1 < card (Line_of_Business ` snd ` set g)"
  by (simp add: account_label_def Let_def lob_cells)

lemma account_label_values: "account_label g = ''Cross-Sold'' \<or> account_label g = ''Monoline''"
  by (simp add: account_label_def Let_def)

lemma carrier_implies_account:
  assumes "carrier_label g = ''Cross-Sold''" shows "account_label g = ''Cross-Sold''"
proof -
  from assms obtain c where c: "1 < card (Line_of_Business ` snd ` set (group_of Carrier g c))"
    unfolding carrier_label_iff by blast
  have "set (group_of Carrier g c) \<subseteq> set g" by (auto simp: group_of_def)
  then have "Line_of_Business ` snd ` set (group_of Carrier g c)
               \<subseteq> Line_of_Business ` snd ` set g" by blast
  then have "card (Line_of_Business ` snd ` set (group_of Carrier g c))
               \<le> card (Line_of_Business ` snd ` set g)"
    by (rule card_mono [rotated]) simp
  with c show ?thesis unfolding account_label_iff by simp
qed

text \<open>The frame that is classified, and the sets of the specification.\<close>

lemma distinct_range_index: "distinct (map fst (range_index recs))"
  by (simp add: range_index_def)

lemma snd_range_index: "snd ` set (range_index recs) = set recs"
proof -
  have "map snd (range_index recs) = recs" by (simp add: range_index_def)
  then have "set (map snd (range_index recs)) = set recs" by simp
  then show ?thesis by simp
qed

lemma distinct_filter_lob: "distinct (map fst df) \<Longrightarrow> distinct (map fst (filter_lob df))"
  by (simp add: filter_lob_def distinct_map_filter)

lemma snd_working_frame:
  "snd ` set (filter_lob (range_index recs)) = set (working_set recs)"
proof -
  have "snd ` set (filter_lob (range_index recs))
        = {p \<in> snd ` set (range_index recs). Line_of_Business p \<in> set (map Some lob_allowed)}"
    by (force simp: filter_lob_def)
  then show ?thesis by (auto simp: snd_range_index working_set_def)
qed

lemma snd_group_of: "snd ` set (group_of key df k) = {p \<in> snd ` set df. key p = Some k}"
  by (force simp: group_of_def)

lemma working_line: "p \<in> set (working_set recs) \<Longrightarrow> \<exists>l. Line_of_Business p = Some l"
  by (auto simp: working_set_def)

lemma cells_of_lines:
  assumes "set ps \<subseteq> set (working_set recs)"
  shows "Line_of_Business ` set ps = Some ` set (List.map_filter Line_of_Business ps)"
proof
  show "Line_of_Business ` set ps \<subseteq> Some ` set (List.map_filter Line_of_Business ps)"
  proof
    fix x assume "x \<in> Line_of_Business ` set ps"
    then obtain p where p: "p \<in> set ps" "x = Line_of_Business p" by blast
    with assms obtain l where "Line_of_Business p = Some l" using working_line by blast
    with p show "x \<in> Some ` set (List.map_filter Line_of_Business ps)"
      by (force simp: set_map_filter)
  qed
  show "Some ` set (List.map_filter Line_of_Business ps) \<subseteq> Line_of_Business ` set ps"
    by (force simp: set_map_filter)
qed

lemma card_cells_of_lines:
  assumes "set ps \<subseteq> set (working_set recs)"
  shows "card (Line_of_Business ` set ps) = card (set (List.map_filter Line_of_Business ps))"
  unfolding cells_of_lines [OF assms] by (rule card_image) simp

lemma group_records:
  "snd ` set (group_of Customer_Name (filter_lob (range_index recs)) n) = set (records_of recs n)"
  by (auto simp: snd_group_of snd_working_frame records_of_def)

lemma records_subset: "set (records_of recs n) \<subseteq> set (working_set recs)"
  by (auto simp: records_of_def)

lemma account_label_lines:
  "account_label (group_of Customer_Name (filter_lob (range_index recs)) n)
     = (if 1 < card (lines_of recs n) then ''Cross-Sold'' else ''Monoline'')"
proof -
  have "card (Line_of_Business ` snd `
               set (group_of Customer_Name (filter_lob (range_index recs)) n))
          = card (lines_of recs n)"
    unfolding group_records lines_of_def by (rule card_cells_of_lines [OF records_subset])
  then show ?thesis by (simp add: account_label_def Let_def lob_cells)
qed

lemma carrier_group_records:
  "snd ` set (group_of Carrier (group_of Customer_Name (filter_lob (range_index recs)) n) c)
     = set (filter (\<lambda>p. Carrier p = Some c) (records_of recs n))"
proof -
  have "snd ` set (group_of Carrier (group_of Customer_Name (filter_lob (range_index recs)) n) c)
          = {p \<in> set (records_of recs n). Carrier p = Some c}"
    unfolding snd_group_of [of Carrier] group_records ..
  then show ?thesis by simp
qed

lemma carrier_label_lines:
  "carrier_label (group_of Customer_Name (filter_lob (range_index recs)) n)
     = (if \<exists>c. 1 < card (lines_at recs n c) then ''Cross-Sold'' else ''Monoline'')"
proof -
  have "card (Line_of_Business ` snd `
               set (group_of Carrier (group_of Customer_Name (filter_lob (range_index recs)) n) c))
          = card (lines_at recs n c)" for c
    unfolding carrier_group_records lines_at_def
  proof (rule card_cells_of_lines)
    show "set (filter (\<lambda>p. Carrier p = Some c) (records_of recs n)) \<subseteq> set (working_set recs)"
      using records_subset by auto
  qed
  then have "carrier_label (group_of Customer_Name (filter_lob (range_index recs)) n)
               = ''Cross-Sold'' \<longleftrightarrow> (\<exists>c. 1 < card (lines_at recs n c))"
    unfolding carrier_label_iff by simp
  with carrier_label_values
         [of "group_of Customer_Name (filter_lob (range_index recs)) n"]
  show ?thesis by auto
qed

subsection \<open>Rows of a run\<close>

lemma run_Inr:
  assumes "run recs = Inr (cdf, summary)"
  shows "add_account_types (filter_lob (range_index recs)) = Inr cdf"
    and "summary = agency_summary cdf"
  using assms by (auto simp: run_def analyse_def split: sum.splits)

lemma distinct_working_frame: "distinct (map fst (filter_lob (range_index recs)))"
  by (simp add: distinct_filter_lob distinct_range_index)

lemma classified_row:
  assumes "run recs = Inr (cdf, summary)" and "(i, c) \<in> set cdf"
  shows "(i, policy c) \<in> set (filter_lob (range_index recs))"
    and "(2 \<le> length (group_keys Customer_Name (filter_lob (range_index recs)))
          \<and> Account_Type c
              = map_option (\<lambda>n. account_label
                                  (group_of Customer_Name (filter_lob (range_index recs)) n))
                  (Customer_Name (policy c))
          \<and> Carrier_Account_Type c
              = map_option (\<lambda>n. carrier_label
                                  (group_of Customer_Name (filter_lob (range_index recs)) n))
                  (Customer_Name (policy c)))
       \<or> (\<exists>k j r0. group_keys Customer_Name (filter_lob (range_index recs)) = [k]
            \<and> group_of Customer_Name (filter_lob (range_index recs)) k = [(j, r0)]
            \<and> Account_Type c = (if i = 0 then Some (account_label [(j, r0)]) else None)
            \<and> Carrier_Account_Type c
                = (if i = 0 then Some (carrier_label [(j, r0)]) else None))"
proof -
  let ?F = "filter_lob (range_index recs)"
  note cases = add_account_types_cases [OF run_Inr(1) [OF assms(1)] distinct_working_frame]
  from cases assms(2) show "(i, policy c) \<in> set ?F" by auto
  from cases assms(2)
  show "(2 \<le> length (group_keys Customer_Name ?F)
          \<and> Account_Type c
              = map_option (\<lambda>n. account_label (group_of Customer_Name ?F n))
                  (Customer_Name (policy c))
          \<and> Carrier_Account_Type c
              = map_option (\<lambda>n. carrier_label (group_of Customer_Name ?F n))
                  (Customer_Name (policy c)))
       \<or> (\<exists>k j r0. group_keys Customer_Name ?F = [k]
            \<and> group_of Customer_Name ?F k = [(j, r0)]
            \<and> Account_Type c = (if i = 0 then Some (account_label [(j, r0)]) else None)
            \<and> Carrier_Account_Type c
                = (if i = 0 then Some (carrier_label [(j, r0)]) else None))"
  proof (elim disjE conjE exE)
    assume "2 \<le> length (group_keys Customer_Name ?F)"
      and "cdf = map (\<lambda>(i, r). (i, \<lparr>policy = r,
                     Account_Type = map_option (\<lambda>n. account_label (group_of Customer_Name ?F n))
                                      (Customer_Name r),
                     Carrier_Account_Type =
                       map_option (\<lambda>n. carrier_label (group_of Customer_Name ?F n))
                         (Customer_Name r)\<rparr>)) ?F"
    with assms(2) show ?thesis by auto
  next
    fix k j r0
    assume "group_keys Customer_Name ?F = [k]" "group_of Customer_Name ?F k = [(j, r0)]"
      and "cdf = map (\<lambda>(i, r). (i, \<lparr>policy = r,
                     Account_Type = (if i = 0 then Some (account_label [(j, r0)]) else None),
                     Carrier_Account_Type =
                       (if i = 0 then Some (carrier_label [(j, r0)]) else None)\<rparr>)) ?F"
    with assms(2) show ?thesis by auto
  qed
qed

lemma policies_of_classified:
  assumes "run recs = Inr (cdf, summary)"
  shows "map (\<lambda>(i, c). policy c) cdf = working_set recs"
proof -
  let ?F = "filter_lob (range_index recs)"
  note cases = add_account_types_cases [OF run_Inr(1) [OF assms] distinct_working_frame]
  from cases have "map (\<lambda>(i, c). policy c) cdf = map snd ?F"
    by (auto simp: comp_def case_prod_unfold)
  also have "\<dots> = filter (\<lambda>p. Line_of_Business p \<in> set (map Some lob_allowed))
                     (map snd (range_index recs))"
    by (simp add: filter_lob_def filter_map comp_def case_prod_unfold)
  also have "map snd (range_index recs) = recs" by (simp add: range_index_def)
  finally show ?thesis by (simp add: working_set_def)
qed

lemma single_group_row:
  assumes "group_keys key df = [k]" and "group_of key df k = [(j, r0)]"
    and "(i, r) \<in> set df" and "key r = Some n"
  shows "i = j" and "r = r0"
proof -
  from assms(3,4) have "n \<in> set (group_keys key df)" by (auto simp: set_group_keys)
  with assms(1) have "n = k" by simp
  with assms(3,4) have "(i, r) \<in> set (group_of key df k)" by (simp add: in_group_of)
  with assms(2) show "i = j" and "r = r0" by simp_all
qed

lemma same_customer_rows:
  assumes run: "run recs = Inr (cdf, summary)"
    and c: "(i, c) \<in> set cdf" and c': "(j, c') \<in> set cdf"
    and n: "Customer_Name (policy c) = Some n" and n': "Customer_Name (policy c') = Some n"
  shows "Account_Type c = Account_Type c'"
    and "Carrier_Account_Type c = Carrier_Account_Type c'"
    and "policy c \<noteq> policy c' \<Longrightarrow>
           Account_Type c = Some (if 1 < card (lines_of recs n)
                                  then ''Cross-Sold'' else ''Monoline'')
         \<and> Carrier_Account_Type c = Some (if \<exists>car. 1 < card (lines_at recs n car)
                                          then ''Cross-Sold'' else ''Monoline'')"
proof -
  let ?F = "filter_lob (range_index recs)"
  note r = classified_row [OF run c]
  note r' = classified_row [OF run c']
  show "Account_Type c = Account_Type c'"
    using r(2) r'(2)
  proof (elim disjE conjE exE)
    fix k j0 r0 k' j0' r0'
    assume k1: "group_keys Customer_Name ?F = [k]"
      and g1: "group_of Customer_Name ?F k = [(j0, r0)]"
      and a: "Account_Type c = (if i = 0 then Some (account_label [(j0, r0)]) else None)"
      and k2: "group_keys Customer_Name ?F = [k']"
      and g2: "group_of Customer_Name ?F k' = [(j0', r0')]"
      and a': "Account_Type c' = (if j = 0 then Some (account_label [(j0', r0')]) else None)"
    from k1 k2 have "k' = k" by simp
    with g1 g2 have e: "j0' = j0" "r0' = r0" by simp_all
    have "i = j0" by (rule single_group_row(1) [OF k1 g1 r(1) n])
    moreover have "j = j0" by (rule single_group_row(1) [OF k1 g1 r'(1) n'])
    ultimately show ?thesis using a a' e by simp
  qed (simp_all add: n n')
  show "Carrier_Account_Type c = Carrier_Account_Type c'"
    using r(2) r'(2)
  proof (elim disjE conjE exE)
    fix k j0 r0 k' j0' r0'
    assume k1: "group_keys Customer_Name ?F = [k]"
      and g1: "group_of Customer_Name ?F k = [(j0, r0)]"
      and a: "Carrier_Account_Type c = (if i = 0 then Some (carrier_label [(j0, r0)]) else None)"
      and k2: "group_keys Customer_Name ?F = [k']"
      and g2: "group_of Customer_Name ?F k' = [(j0', r0')]"
      and a': "Carrier_Account_Type c' = (if j = 0 then Some (carrier_label [(j0', r0')]) else None)"
    from k1 k2 have "k' = k" by simp
    with g1 g2 have e: "j0' = j0" "r0' = r0" by simp_all
    have "i = j0" by (rule single_group_row(1) [OF k1 g1 r(1) n])
    moreover have "j = j0" by (rule single_group_row(1) [OF k1 g1 r'(1) n'])
    ultimately show ?thesis using a a' e by simp
  qed (simp_all add: n n')
  show "Account_Type c = Some (if 1 < card (lines_of recs n)
                                  then ''Cross-Sold'' else ''Monoline'')
         \<and> Carrier_Account_Type c = Some (if \<exists>car. 1 < card (lines_at recs n car)
                                          then ''Cross-Sold'' else ''Monoline'')"
    if ne: "policy c \<noteq> policy c'"
    using r(2)
  proof (elim disjE conjE exE)
    fix k j0 r0
    assume k: "group_keys Customer_Name ?F = [k]" "group_of Customer_Name ?F k = [(j0, r0)]"
    from single_group_row(2) [OF k r(1) n] single_group_row(2) [OF k r'(1) n'] ne
    show ?thesis by simp
  qed (simp add: n account_label_lines carrier_label_lines)
qed

lemma labels_of_row:
  assumes run: "run recs = Inr (cdf, summary)" and c: "(i, c) \<in> set cdf"
  shows "(Account_Type c = None \<and> Carrier_Account_Type c = None)
       \<or> (\<exists>g. Account_Type c = Some (account_label g)
              \<and> Carrier_Account_Type c = Some (carrier_label g))"
  using classified_row(2) [OF run c]
  by (cases "Customer_Name (policy c)") (auto split: if_splits)

lemma own_line_in_lines_of:
  assumes "p \<in> set (working_set recs)" and "Customer_Name p = Some n"
    and "Line_of_Business p = Some l"
  shows "l \<in> lines_of recs n"
  using assms by (force simp: lines_of_def records_of_def set_map_filter)

lemma lines_of_divisions: "lines_of recs n = (\<Union>d. lines_in_division recs n d)"
  by (force simp: lines_of_def lines_in_division_def set_map_filter)

lemma finite_lines_of: "finite (lines_of recs n)"
  by (simp add: lines_of_def)

lemma two_lines_card:
  assumes "a \<in> S" "b \<in> S" "a \<noteq> b" "finite S"
  shows "1 < card S"
proof -
  have "{a, b} \<subseteq> S" using assms by simp
  then have "card {a, b} \<le> card S" using assms(4) by (rule card_mono [rotated])
  with assms(3) show ?thesis by simp
qed

lemma filter_lob_without_customer:
  assumes "\<forall>p \<in> set recs. Customer_Name p = Some n
              \<longrightarrow> Line_of_Business p \<notin> set (map Some lob_allowed)"
  shows "filter_lob (filter (\<lambda>(i, p). Customer_Name p \<noteq> Some n) (range_index recs))
           = filter_lob (range_index recs)"
proof -
  have "(Customer_Name (snd x) \<noteq> Some n \<and> Line_of_Business (snd x) \<in> set (map Some lob_allowed))
          = (Line_of_Business (snd x) \<in> set (map Some lob_allowed))"
    if "x \<in> set (range_index recs)" for x
  proof -
    from that have "snd x \<in> snd ` set (range_index recs)" by blast
    then have "snd x \<in> set recs" by (simp add: snd_range_index)
    with assms show ?thesis by blast
  qed
  then show ?thesis
    unfolding filter_lob_def filter_filter case_prod_unfold
    by (intro filter_cong refl) simp
qed

lemma no_missing_fields_iff:
  "missing_fields cols = [] \<longleftrightarrow> list_all (\<lambda>col. col \<in> set cols) required_cols"
  by (simp add: missing_fields_def filter_empty_conv list_all_iff)

subsection \<open>Rounding to doubles\<close>

lemma rint_error: "\<bar>of_int (rint q) - q\<bar> \<le> 1 / 2"
proof -
  have "of_int \<lfloor>q\<rfloor> \<le> q" "q < of_int \<lfloor>q\<rfloor> + 1" by linarith+
  then show ?thesis by (auto simp: rint_def Let_def)
qed

lemma rint_of_int: "rint (of_int z) = z"
  by (simp add: rint_def Let_def)

lemma rint_nonneg: "0 \<le> q \<Longrightarrow> 0 \<le> rint q"
  by (auto simp: rint_def Let_def)

lemma exponent_le:
  assumes "q \<noteq> 0" shows "2 powi (exponent q) \<le> \<bar>q\<bar>"
proof -
  obtain a b where ab: "quotient_of \<bar>q\<bar> = (a, b)" by (cases "quotient_of \<bar>q\<bar>")
  then have b: "0 < b" by (rule quotient_of_denom_pos)
  from ab have q: "\<bar>q\<bar> = of_int a / of_int b" by (rule quotient_of_div)
  from assms have "0 < \<bar>q\<bar>" by simp
  with q b have a: "0 < a" by (simp add: zero_less_divide_iff)
  let ?k = "bitlen a - bitlen b"
  show ?thesis
  proof (cases "2 powi ?k \<le> \<bar>q\<bar>")
    case True
    then show ?thesis by (simp add: exponent_def ab)
  next
    case False
    then have e: "exponent q = ?k - 1" by (simp add: exponent_def ab)
    from bitlen_bounds [OF a] have la: "(2::int) ^ nat (bitlen a - 1) \<le> a" by simp
    from bitlen_bounds [OF b] have lb: "b < (2::int) ^ nat (bitlen b)" by simp
    from a have pa: "1 \<le> bitlen a" by (simp add: bitlen_alt_def)
    have "(2::rat) powi (?k - 1) = 2 powi (bitlen a - 1) / 2 powi (bitlen b)"
      by (simp add: power_int_diff)
    also have "(2::rat) powi (bitlen a - 1) = 2 ^ nat (bitlen a - 1)"
      using pa by (simp add: power_int_def)
    also have "(2::rat) powi (bitlen b) = 2 ^ nat (bitlen b)"
      using bitlen_nonneg [of b] by (simp add: power_int_def)
    finally have p: "(2::rat) powi (?k - 1) = 2 ^ nat (bitlen a - 1) / 2 ^ nat (bitlen b)" .
    have "(2::rat) ^ nat (bitlen a - 1) \<le> of_int a"
    proof -
      from la have "(of_int ((2::int) ^ nat (bitlen a - 1)) :: rat) \<le> of_int a"
        by (simp only: of_int_le_iff)
      then show ?thesis by simp
    qed
    moreover have "(of_int b :: rat) \<le> 2 ^ nat (bitlen b)"
    proof -
      from lb have "(of_int b :: rat) < of_int ((2::int) ^ nat (bitlen b))"
        by (simp only: of_int_less_iff)
      then show ?thesis by simp
    qed
    ultimately have "(2::rat) ^ nat (bitlen a - 1) / 2 ^ nat (bitlen b)
                       \<le> of_int a / of_int b"
      using a b by (intro frac_le) simp_all
    with p q e show ?thesis by simp
  qed
qed

lemma fl_error: "\<bar>fl q - q\<bar> \<le> \<bar>q\<bar> / 2 ^ 53"
proof (cases "q = 0")
  case True
  then show ?thesis by (simp add: fl_def)
next
  case False
  let ?e = "exponent q - 52"
  let ?p = "(2::rat) powi ?e"
  have pos: "0 < ?p" by simp
  have "fl q - q = (of_int (rint (q / ?p)) - q / ?p) * ?p"
    using False pos by (simp add: fl_def Let_def algebra_simps)
  then have "\<bar>fl q - q\<bar> = \<bar>of_int (rint (q / ?p)) - q / ?p\<bar> * ?p"
    using pos by (simp add: abs_mult)
  also have "\<dots> \<le> 1 / 2 * ?p"
    using rint_error [of "q / ?p"] pos by (intro mult_right_mono) simp_all
  also have "1 / 2 * ?p = 2 powi (exponent q) / 2 ^ 53"
  proof -
    have "(2::rat) powi (exponent q - 52) = 2 powi (exponent q) / 2 powi 52"
      by (simp add: power_int_diff)
    then show ?thesis by simp
  qed
  also have "\<dots> \<le> \<bar>q\<bar> / 2 ^ 53"
    using exponent_le [OF False] by (intro divide_right_mono) simp_all
  finally show ?thesis .
qed

lemma fl_nonneg: "0 \<le> q \<Longrightarrow> 0 \<le> fl q"
proof -
  assume q: "0 \<le> q"
  have "0 \<le> q / 2 powi (exponent q - 52)" using q by simp
  then have "0 \<le> rint (q / 2 powi (exponent q - 52))" by (rule rint_nonneg)
  then show ?thesis by (simp add: fl_def Let_def)
qed

lemma exponent_less:
  assumes "q \<noteq> 0" and "\<bar>q\<bar> < 2 ^ 53" shows "exponent q \<le> 52"
proof (rule ccontr)
  assume "\<not> exponent q \<le> 52"
  then have "53 \<le> exponent q" by simp
  then have "(2::rat) powi 53 \<le> 2 powi (exponent q)"
    by (intro power_int_increasing) simp_all
  with exponent_le [OF assms(1)] assms(2) show False by simp
qed

lemma fl_of_nat:
  assumes "n < 2 ^ 53" shows "fl (of_nat n) = of_nat n"
proof (cases "n = 0")
  case True
  then show ?thesis by (simp add: fl_def)
next
  case False
  let ?q = "of_nat n :: rat"
  from False have q0: "?q \<noteq> 0" by simp
  have "\<bar>?q\<bar> < 2 ^ 53"
  proof -
    from assms have "(of_nat n :: rat) < of_nat (2 ^ 53)" by (simp only: of_nat_less_iff)
    then show ?thesis by simp
  qed
  from exponent_less [OF q0 this] have le: "exponent ?q - 52 \<le> 0" by simp
  define k where "k = nat (52 - exponent ?q)"
  have e: "exponent ?q - 52 = - int k" using le by (simp add: k_def)
  have p: "(2::rat) powi (exponent ?q - 52) = 1 / 2 ^ k"
    unfolding e by (simp add: power_int_minus divide_inverse)
  have "?q / (2 powi (exponent ?q - 52)) = of_int (int n * 2 ^ k)"
    unfolding p by simp
  then have "rint (?q / (2 powi (exponent ?q - 52))) = int n * 2 ^ k"
    by (simp only: rint_of_int)
  then have "fl ?q = of_int (int n * 2 ^ k) * (1 / 2 ^ k)"
    using q0 by (simp add: fl_def Let_def p)
  then show ?thesis by simp
qed

lemma percent_columns_value:
  assumes "0 < t" and "m < 2 ^ 53" and "t < 2 ^ 53"
  shows "percent_columns m t
           = (Fin (fl (of_int (rint (fl (fl (fl (of_nat m / of_nat t) * 100) * 100))) / 100)),
              Fin (fl (100 - fl (of_int (rint (fl (fl (fl (of_nat m / of_nat t) * 100) * 100)))
                                   / 100))))"
  using assms by (simp add: percent_columns_def col_div_def Let_def fl_of_nat)

lemma rounded_percent_error:
  fixes x :: rat
  assumes x: "0 \<le> x"
  defines "d1 \<equiv> fl x"
  defines "d2 \<equiv> fl (d1 * 100)"
  defines "d3 \<equiv> fl (d2 * 100)"
  defines "a \<equiv> fl (of_int (rint d3) / 100)"
  shows "\<bar>a - x * 100\<bar> \<le> 1 / 200 + (7 * (x * 100) + 1) / 2 ^ 53"
proof -
  have n1: "0 \<le> d1" unfolding d1_def using x by (rule fl_nonneg)
  then have n2: "0 \<le> d2" unfolding d2_def by (intro fl_nonneg) simp
  then have n3: "0 \<le> d3" unfolding d3_def by (intro fl_nonneg) simp
  then have n4: "0 \<le> rint d3" by (rule rint_nonneg)
  then have n4': "(0::rat) \<le> of_int (rint d3)" by simp
  have f1: "\<bar>d1 - x\<bar> \<le> x / 2 ^ 53"
    unfolding d1_def using fl_error [of x] x by simp
  have f2: "\<bar>d2 - d1 * 100\<bar> \<le> d1 * 100 / 2 ^ 53"
    unfolding d2_def using fl_error [of "d1 * 100"] n1 by simp
  have f3: "\<bar>d3 - d2 * 100\<bar> \<le> d2 * 100 / 2 ^ 53"
    unfolding d3_def using fl_error [of "d2 * 100"] n2 by simp
  have f4: "\<bar>of_int (rint d3) - d3\<bar> \<le> 1 / 2" by (rule rint_error)
  have f5: "\<bar>a - of_int (rint d3) / 100\<bar> \<le> of_int (rint d3) / 100 / 2 ^ 53"
    unfolding a_def using fl_error [of "of_int (rint d3) / 100"] n4' by simp
  define y where "y = (of_int (rint d3) :: rat)"
  from f1 have g1: "d1 - x \<le> x / 2 ^ 53" "x - d1 \<le> x / 2 ^ 53" by linarith+
  from f2 have g2: "d2 - d1 * 100 \<le> d1 * 100 / 2 ^ 53" "d1 * 100 - d2 \<le> d1 * 100 / 2 ^ 53"
    by linarith+
  from f3 have g3: "d3 - d2 * 100 \<le> d2 * 100 / 2 ^ 53" "d2 * 100 - d3 \<le> d2 * 100 / 2 ^ 53"
    by linarith+
  from f4 have g4: "y - d3 \<le> 1 / 2" "d3 - y \<le> 1 / 2" unfolding y_def by linarith+
  have f5': "\<bar>a - y / 100\<bar> \<le> y / 900719925474099200"
    using f5 unfolding y_def by simp
  then have g5: "a - y / 100 \<le> y / 900719925474099200"
    "y / 100 - a \<le> y / 900719925474099200"
    by linarith+
  have U: "(2::rat) ^ 53 = 9007199254740992" by simp
  have u2: "d2 \<le> x * 100 + 3 * (x * 100) / 9007199254740992"
    using g1(1) g2(1) x unfolding U by linarith
  have u3: "d3 \<le> x * 10000 + 5 * (x * 10000) / 9007199254740992"
    using u2 g3(1) x unfolding U by linarith
  have u4: "y \<le> x * 10000 + 5 * (x * 10000) / 9007199254740992 + 1 / 2"
    using u3 g4(1) by linarith
  have up: "a - x * 100 \<le> 1 / 200 + (7 * (x * 100) + 1) / 2 ^ 53"
    using u4 g5(1) x unfolding U by (simp add: field_simps)
  have l2: "x * 100 - 2 * (x * 100) / 9007199254740992 \<le> d2"
    using g1(2) g2(2) x unfolding U by linarith
  have l3: "x * 10000 - 3 * (x * 10000) / 9007199254740992 \<le> d3"
    using l2 g3(2) x unfolding U by linarith
  have l4: "x * 10000 - 3 * (x * 10000) / 9007199254740992 - 1 / 2 \<le> y"
    using l3 g4(2) by linarith
  have lo: "x * 100 - a \<le> 1 / 200 + (7 * (x * 100) + 1) / 2 ^ 53"
    using l4 g5(2) x n4' [folded y_def] unfolding U by (simp add: field_simps)
  from up lo show ?thesis by linarith
qed

lemma summary_row_percentages:
  "(pct_Monoline (summary_row d g), pct_Cross_Sold (summary_row d g))
     = percent_columns (Monoline (summary_row d g)) (Total_Clients (summary_row d g))"
  by (simp add: summary_row_def Let_def split: prod.splits)

lemma summary_percentages:
  assumes "s \<in> set (agency_summary df)"
  shows "(pct_Monoline s, pct_Cross_Sold s) = percent_columns (Monoline s) (Total_Clients s)"
proof -
  from assms obtain d g where "s = summary_row d g"
    by (auto simp: agency_summary_def)
  then show ?thesis by (simp only: summary_row_percentages)
qed

section \<open>The claims\<close>

text \<open>
  Claim C1 says that the Monoline and Cross-Sold counts of the summary table count each
  customer once, so that their sum is the number of clients. The summary table counts
  rows. In a book where Alice holds two lines of business (two rows) and Bob one, all in
  division North, the summary has 2 clients, 1 Monoline and 2 Cross-Sold, while the
  per-customer counts of the selected division (first account type of each customer)
  are 1 Monoline and 1 Cross-Sold.
\<close>

theorem summary_counts_rows:
  "map_sum id (\<lambda>(cdf, summary).
       map (\<lambda>s. (Division_key s, Total_Clients s, Monoline s, Cross_Sold s)) summary)
     (run north_book) = Inr [(''North'', 2, 1, 2)]
   \<and> map_sum id (\<lambda>(cdf, summary).
       map_option (\<lambda>v. (total_clients v, total_monoline v, total_cross_sold v))
         (division_view ''North'' cdf))
     (run north_book) = Inr (Some (2, 1, 1))"
  by code_simp

text \<open>
  Claim C2, as stated, fails: the error of a load with a missing field does not name the
  field. A sheet with the headers Agency, Client Name, Line of Business and Parent
  Company lacks the Policy Number; the load stops with a message in which the words
  Policy Number do not occur.
\<close>

theorem schema_error_names_no_field:
  "missing_fields (normalize_columns sheet_headers) = [''Policy Number'']
   \<and> load sheet_headers sheet_rows = Inl ''Missing one or more required columns.''
   \<and> \<not> names_field ''Missing one or more required columns.'' ''Policy Number''"
  by code_simp

text \<open>
  Claim C2, amended. If any of the five canonical fields is absent after alias mapping,
  the load stops with the fixed message "Missing one or more required columns." and
  yields no outcome of the analysis: neither the filter nor the classifier runs. The
  message names none of the five fields.
\<close>

theorem missing_column_rejection:
  "(missing_fields (normalize_columns headers) \<noteq> []
      \<longrightarrow> load headers rows = Inl ''Missing one or more required columns.''
          \<and> (\<nexists>out. load headers rows = Inr out))
   \<and> (\<forall>f \<in> set required_cols.
         \<not> names_field ''Missing one or more required columns.'' f)"
proof (intro conjI impI)
  assume "missing_fields (normalize_columns headers) \<noteq> []"
  then show e: "load headers rows = Inl ''Missing one or more required columns.''"
    by (simp add: load_def Let_def no_missing_fields_iff)
  then show "\<nexists>out. load headers rows = Inr out" by simp
next
  show "\<forall>f \<in> set required_cols.
         \<not> names_field ''Missing one or more required columns.'' f"
    by code_simp
qed

theorem missing_column_rejection_witness:
  "missing_fields (normalize_columns sheet_headers) \<noteq> []
   \<and> load sheet_headers sheet_rows = Inl ''Missing one or more required columns.''
   \<and> ''Carrier'' \<in> set required_cols
   \<and> \<not> names_field ''Missing one or more required columns.'' ''Carrier''"
proof -
  have m: "missing_fields (normalize_columns sheet_headers) \<noteq> []" by code_simp
  have c: "''Carrier'' \<in> set required_cols" by (simp add: required_cols_def)
  note a = missing_column_rejection [of sheet_headers sheet_rows]
  from a m have a1: "load sheet_headers sheet_rows = Inl ''Missing one or more required columns.''"
    by blast
  from a c have a2: "\<not> names_field ''Missing one or more required columns.'' ''Carrier''"
    by blast
  from m a1 c a2 show ?thesis by blast
qed

text \<open>
  Claim C3. Both classifications group by customer name over the whole filtered dataset,
  not per division. In a run that ends without an exception, take two classified rows
  of one customer name that lie in different divisions. The account type of either row
  is decided by the lines of business of that name in all divisions taken together, the
  carrier account type by the name's records of all divisions, and both rows carry the
  same two values. So two such rows with different lines of business are both
  Cross-Sold, whatever each division holds alone.
\<close>

theorem classification_spans_divisions:
  assumes "run recs = Inr (cdf, summary)"
    and "(i, c) \<in> set cdf" and "(j, c') \<in> set cdf"
    and "Customer_Name (policy c) = Some n" and "Customer_Name (policy c') = Some n"
    and "Division (policy c) \<noteq> Division (policy c')"
  shows "lines_of recs n = (\<Union>d. lines_in_division recs n d)
    \<and> Account_Type c = Some (if 1 < card (\<Union>d. lines_in_division recs n d)
                              then ''Cross-Sold'' else ''Monoline'')
    \<and> Account_Type c' = Account_Type c
    \<and> Carrier_Account_Type c = Some (if \<exists>car. 1 < card (lines_at recs n car)
                                      then ''Cross-Sold'' else ''Monoline'')
    \<and> Carrier_Account_Type c' = Carrier_Account_Type c
    \<and> (Line_of_Business (policy c) \<noteq> Line_of_Business (policy c')
          \<longrightarrow> Account_Type c = Some ''Cross-Sold'' \<and> Account_Type c' = Some ''Cross-Sold'')"
proof -
  have u: "lines_of recs n = (\<Union>d. lines_in_division recs n d)" by (rule lines_of_divisions)
  from assms(6) have ne: "policy c \<noteq> policy c'" by auto
  note s = same_customer_rows [OF assms(1-5)]
  from s(3) [OF ne]
  have at: "Account_Type c = Some (if 1 < card (lines_of recs n)
                                   then ''Cross-Sold'' else ''Monoline'')"
    and cat: "Carrier_Account_Type c = Some (if \<exists>car. 1 < card (lines_at recs n car)
                                      then ''Cross-Sold'' else ''Monoline'')"
    by simp_all
  have e1: "Account_Type c' = Account_Type c" using s(1) by simp
  have e2: "Carrier_Account_Type c' = Carrier_Account_Type c" using s(2) by simp
  have x: "1 < card (lines_of recs n)"
    if d: "Line_of_Business (policy c) \<noteq> Line_of_Business (policy c')"
  proof -
    let ?F = "filter_lob (range_index recs)"
    from classified_row(1) [OF assms(1,2)] have "policy c \<in> snd ` set ?F" by force
    then have w: "policy c \<in> set (working_set recs)" by (simp add: snd_working_frame)
    from classified_row(1) [OF assms(1,3)] have "policy c' \<in> snd ` set ?F" by force
    then have w': "policy c' \<in> set (working_set recs)" by (simp add: snd_working_frame)
    from working_line [OF w] obtain l where l: "Line_of_Business (policy c) = Some l" by blast
    from working_line [OF w'] obtain l' where l': "Line_of_Business (policy c') = Some l'"
      by blast
    from d l l' have "l \<noteq> l'" by simp
    with own_line_in_lines_of [OF w assms(4) l] own_line_in_lines_of [OF w' assms(5) l']
    show ?thesis using finite_lines_of by (rule two_lines_card)
  qed
  have y: "Line_of_Business (policy c) \<noteq> Line_of_Business (policy c')
          \<longrightarrow> Account_Type c = Some ''Cross-Sold'' \<and> Account_Type c' = Some ''Cross-Sold''"
    using x at e1 by simp
  have at2: "Account_Type c = Some (if 1 < card (\<Union>d. lines_in_division recs n d)
                              then ''Cross-Sold'' else ''Monoline'')"
    using at unfolding u .
  from u at2 e1 cat e2 y show ?thesis by blast
qed

theorem classification_spans_divisions_witness:
  "run two_division_book = Inr (two_division_classified, two_division_summary)
   \<and> (0, typed pat_north ''Cross-Sold'' ''Monoline'') \<in> set two_division_classified
   \<and> (1, typed pat_south ''Cross-Sold'' ''Monoline'') \<in> set two_division_classified
   \<and> Division pat_north \<noteq> Division pat_south
   \<and> Line_of_Business pat_north \<noteq> Line_of_Business pat_south
   \<and> card (lines_in_division two_division_book ''Pat'' (Division pat_north)) = 1
   \<and> card (lines_in_division two_division_book ''Pat'' (Division pat_south)) = 1
   \<and> Account_Type (typed pat_north ''Cross-Sold'' ''Monoline'') = Some ''Cross-Sold''
   \<and> Account_Type (typed pat_south ''Cross-Sold'' ''Monoline'') = Some ''Cross-Sold''"
proof -
  have r: "run two_division_book = Inr (two_division_classified, two_division_summary)"
    by code_simp
  have h0: "(0, typed pat_north ''Cross-Sold'' ''Monoline'') \<in> set two_division_classified"
    by (simp add: two_division_classified_def)
  have h1: "(1, typed pat_south ''Cross-Sold'' ''Monoline'') \<in> set two_division_classified"
    by (simp add: two_division_classified_def)
  have n0: "Customer_Name (policy (typed pat_north ''Cross-Sold'' ''Monoline'')) = Some ''Pat''"
    by (simp add: typed_def pat_north_def row_def)
  have n1: "Customer_Name (policy (typed pat_south ''Cross-Sold'' ''Monoline'')) = Some ''Pat''"
    by (simp add: typed_def pat_south_def row_def)
  have d: "Division pat_north \<noteq> Division pat_south"
    by (simp add: pat_north_def pat_south_def row_def)
  have d': "Division (policy (typed pat_north ''Cross-Sold'' ''Monoline''))
              \<noteq> Division (policy (typed pat_south ''Cross-Sold'' ''Monoline''))"
    using d by (simp add: typed_def)
  have l: "Line_of_Business pat_north \<noteq> Line_of_Business pat_south"
    by (simp add: pat_north_def pat_south_def row_def)
  have l': "Line_of_Business (policy (typed pat_north ''Cross-Sold'' ''Monoline''))
              \<noteq> Line_of_Business (policy (typed pat_south ''Cross-Sold'' ''Monoline''))"
    using l by (simp add: typed_def)
  have k0: "card (lines_in_division two_division_book ''Pat'' (Division pat_north)) = 1"
    by code_simp
  have k1: "card (lines_in_division two_division_book ''Pat'' (Division pat_south)) = 1"
    by code_simp
  note a = classification_spans_divisions [OF r h0 h1 n0 n1 d']
  from a l' have a1: "Account_Type (typed pat_north ''Cross-Sold'' ''Monoline'') = Some ''Cross-Sold''
     \<and> Account_Type (typed pat_south ''Cross-Sold'' ''Monoline'') = Some ''Cross-Sold''"
    by blast
  from r h0 h1 d l k0 k1 a1 show ?thesis by blast
qed

text \<open>
  Claim C4 says that a customer with more than one distinct line of business is
  Cross-Sold and a customer with exactly one is Monoline, on every record of the
  customer and whatever the order of the rows. The code misses this when the filtered
  frame holds a single customer, because the result of \<open>apply\<close> is then a stacked
  frame. Carol's commercial policy (filtered out) followed by Pat's one Homeowners
  policy leaves the account type of Pat's row, label 1, missing; with Pat's row first,
  label 0, it is Monoline. Alice's two lines as the only rows end the run in an
  exception.
\<close>

theorem single_customer_account_type:
  "run [carol_commercial, pat_north]
     = Inr ([(1, untyped pat_north)],
            [\<lparr>Division_key = ''North'', Total_Clients = 1, Monoline = 0, Cross_Sold = 0,
               pct_Monoline = Fin 0, pct_Cross_Sold = Fin 100\<rparr>])
   \<and> lines_of [carol_commercial, pat_north] ''Pat'' = {''Homeowners''}
   \<and> map_sum id fst (run [pat_north, carol_commercial])
       = Inr [(0, typed pat_north ''Monoline'' ''Monoline'')]
   \<and> lines_of [alice_home, alice_auto] ''Alice'' = {''Homeowners'', ''Private Passenger Auto''}
   \<and> run [alice_home, alice_auto] = Inl Raised"
  by code_simp

text \<open>
  Claim C5 says that the carrier account type is Cross-Sold exactly when some carrier
  holds two distinct lines of the customer and Monoline otherwise, and that a customer
  with Homeowners at CarrierA and Private Passenger Auto at CarrierB is Cross-Sold at
  agency level and Monoline at carrier level. The code misses this when the filtered
  frame holds a single customer. The customer of the example, as the only customer,
  ends the run in an exception. Bob's one policy, on the row labelled 1 behind a row
  that is filtered out, gets no carrier account type at all, although Bob holds a
  single line with his carrier.
\<close>

theorem single_customer_carrier_type:
  "run [pat_north, pat_south] = Inl Raised
   \<and> (Line_of_Business pat_north, Carrier pat_north) = (Some ''Homeowners'', Some ''CarrierA'')
   \<and> (Line_of_Business pat_south, Carrier pat_south)
       = (Some ''Private Passenger Auto'', Some ''CarrierB'')
   \<and> map_sum id (\<lambda>(cdf, summary). map (\<lambda>(i, c). (i, Carrier_Account_Type c)) cdf)
       (run [carol_lower_case, bob_first]) = Inr [(1, None)]
   \<and> lines_at [carol_lower_case, bob_first] ''Bob'' ''CarrierA'' = {''Homeowners''}"
  by code_simp

text \<open>
  Claim C6. In a run that ends without an exception, all rows that share a customer
  name carry the same account type and the same carrier account type.
\<close>

theorem per_customer_constancy:
  assumes "run recs = Inr (cdf, summary)"
    and "(i, c) \<in> set cdf" and "(j, c') \<in> set cdf"
    and "Customer_Name (policy c) = Some n" and "Customer_Name (policy c') = Some n"
  shows "Account_Type c = Account_Type c' \<and> Carrier_Account_Type c = Carrier_Account_Type c'"
  using same_customer_rows(1,2) [OF assms] by simp

theorem per_customer_constancy_witness:
  "run two_division_book = Inr (two_division_classified, two_division_summary)
   \<and> (0, typed pat_north ''Cross-Sold'' ''Monoline'') \<in> set two_division_classified
   \<and> (1, typed pat_south ''Cross-Sold'' ''Monoline'') \<in> set two_division_classified
   \<and> Customer_Name (policy (typed pat_north ''Cross-Sold'' ''Monoline'')) = Some ''Pat''
   \<and> Customer_Name (policy (typed pat_south ''Cross-Sold'' ''Monoline'')) = Some ''Pat''
   \<and> Account_Type (typed pat_north ''Cross-Sold'' ''Monoline'')
       = Account_Type (typed pat_south ''Cross-Sold'' ''Monoline'')
   \<and> Carrier_Account_Type (typed pat_north ''Cross-Sold'' ''Monoline'')
       = Carrier_Account_Type (typed pat_south ''Cross-Sold'' ''Monoline'')"
proof -
  have r: "run two_division_book = Inr (two_division_classified, two_division_summary)"
    by code_simp
  have h0: "(0, typed pat_north ''Cross-Sold'' ''Monoline'') \<in> set two_division_classified"
    by (simp add: two_division_classified_def)
  have h1: "(1, typed pat_south ''Cross-Sold'' ''Monoline'') \<in> set two_division_classified"
    by (simp add: two_division_classified_def)
  have n0: "Customer_Name (policy (typed pat_north ''Cross-Sold'' ''Monoline'')) = Some ''Pat''"
    by (simp add: typed_def pat_north_def row_def)
  have n1: "Customer_Name (policy (typed pat_south ''Cross-Sold'' ''Monoline'')) = Some ''Pat''"
    by (simp add: typed_def pat_south_def row_def)
  show ?thesis using per_customer_constancy [OF r h0 h1 n0 n1] r h0 h1 n0 n1 by blast
qed

text \<open>
  Claim C7. The filter keeps exactly the rows whose line of business is, letter for
  letter, Homeowners, Private Passenger Auto or Mobile Homeowners. In a run that ends
  without an exception the classified rows are these rows in their order, so every
  classified row has one of the three lines, and the summary table is computed from
  the classified rows alone. For a customer whose policies all lie outside the three
  lines, no classified row carries the customer's name, and taking the customer's rows
  out of the frame that was read, the other rows keeping their labels, changes nothing
  in the outcome of the run.
\<close>

theorem filter_closure:
  "set (filter_lob df)
     = {x \<in> set df. Line_of_Business (snd x) = Some ''Homeowners''
                    \<or> Line_of_Business (snd x) = Some ''Private Passenger Auto''
                    \<or> Line_of_Business (snd x) = Some ''Mobile Homeowners''}
   \<and> (run recs = Inr (cdf, summary) \<longrightarrow>
        map (\<lambda>(i, c). policy c) cdf
          = filter (\<lambda>p. Line_of_Business p = Some ''Homeowners''
                        \<or> Line_of_Business p = Some ''Private Passenger Auto''
                        \<or> Line_of_Business p = Some ''Mobile Homeowners'') recs
        \<and> (\<forall>(i, c) \<in> set cdf.
              Line_of_Business (policy c)
                \<in> {Some ''Homeowners'', Some ''Private Passenger Auto'',
                    Some ''Mobile Homeowners''})
        \<and> summary = agency_summary cdf)
   \<and> ((\<forall>p \<in> set recs. Customer_Name p = Some n \<longrightarrow>
          Line_of_Business p
            \<notin> {Some ''Homeowners'', Some ''Private Passenger Auto'',
                Some ''Mobile Homeowners''})
        \<longrightarrow> analyse (filter (\<lambda>(i, p). Customer_Name p \<noteq> Some n) (range_index recs))
              = run recs
            \<and> (run recs = Inr (cdf, summary)
                  \<longrightarrow> Some n \<notin> (\<lambda>(i, c). Customer_Name (policy c)) ` set cdf))"
proof (intro conjI impI)
  show "set (filter_lob df)
     = {x \<in> set df. Line_of_Business (snd x) = Some ''Homeowners''
                    \<or> Line_of_Business (snd x) = Some ''Private Passenger Auto''
                    \<or> Line_of_Business (snd x) = Some ''Mobile Homeowners''}"
    by (auto simp: filter_lob_def lob_allowed_def)
next
  assume r: "run recs = Inr (cdf, summary)"
  show "map (\<lambda>(i, c). policy c) cdf
          = filter (\<lambda>p. Line_of_Business p = Some ''Homeowners''
                        \<or> Line_of_Business p = Some ''Private Passenger Auto''
                        \<or> Line_of_Business p = Some ''Mobile Homeowners'') recs"
    by (simp add: policies_of_classified [OF r] working_set_def lob_allowed_def)
  show "\<forall>(i, c) \<in> set cdf.
              Line_of_Business (policy c)
                \<in> {Some ''Homeowners'', Some ''Private Passenger Auto'',
                    Some ''Mobile Homeowners''}"
  proof -
    have "Line_of_Business (policy c)
                \<in> {Some ''Homeowners'', Some ''Private Passenger Auto'',
                    Some ''Mobile Homeowners''}"
      if "(i, c) \<in> set cdf" for i c
    proof -
      from classified_row(1) [OF r that]
      have "policy c \<in> snd ` set (filter_lob (range_index recs))" by force
      then have "Line_of_Business (policy c) \<in> set (map Some lob_allowed)"
        by (simp add: snd_working_frame working_set_def)
      then show ?thesis by (simp add: lob_allowed_def)
    qed
    then show ?thesis by blast
  qed
  show "summary = agency_summary cdf" by (rule run_Inr(2) [OF r])
next
  assume a: "\<forall>p \<in> set recs. Customer_Name p = Some n \<longrightarrow>
          Line_of_Business p
            \<notin> {Some ''Homeowners'', Some ''Private Passenger Auto'',
                Some ''Mobile Homeowners''}"
  then have a': "\<forall>p \<in> set recs. Customer_Name p = Some n
                   \<longrightarrow> Line_of_Business p \<notin> set (map Some lob_allowed)"
    by (simp add: lob_allowed_def)
  show "analyse (filter (\<lambda>(i, p). Customer_Name p \<noteq> Some n) (range_index recs)) = run recs"
    unfolding run_def analyse_def filter_lob_without_customer [OF a'] ..
  show "Some n \<notin> (\<lambda>(i, c). Customer_Name (policy c)) ` set cdf"
    if r: "run recs = Inr (cdf, summary)"
  proof
    assume "Some n \<in> (\<lambda>(i, c). Customer_Name (policy c)) ` set cdf"
    then obtain i c where c: "(i, c) \<in> set cdf" "Customer_Name (policy c) = Some n"
      by force
    from classified_row(1) [OF r c(1)]
    have "policy c \<in> snd ` set (filter_lob (range_index recs))" by force
    then have "policy c \<in> set recs" "Line_of_Business (policy c) \<in> set (map Some lob_allowed)"
      by (simp_all add: snd_working_frame working_set_def)
    with a' c(2) show False by blast
  qed
qed

theorem filter_closure_witness:
  "run unfiltered_book = Inr (unfiltered_classified, north_summary)
   \<and> map (\<lambda>(i, c). policy c) unfiltered_classified = [alice_home, alice_auto, bob_first]
   \<and> (4, typed bob_first ''Monoline'' ''Monoline'') \<in> set unfiltered_classified
   \<and> Line_of_Business bob_first
        \<in> {Some ''Homeowners'', Some ''Private Passenger Auto'', Some ''Mobile Homeowners''}
   \<and> carol_lower_case \<in> set unfiltered_book
   \<and> Line_of_Business carol_lower_case = Some ''homeowners''
   \<and> Some ''Carol'' \<notin> (\<lambda>(i, c). Customer_Name (policy c)) ` set unfiltered_classified
   \<and> analyse (filter (\<lambda>(i, p). Customer_Name p \<noteq> Some ''Carol'') (range_index unfiltered_book))
       = run unfiltered_book"
proof -
  have r: "run unfiltered_book = Inr (unfiltered_classified, north_summary)" by code_simp
  have h: "(4, typed bob_first ''Monoline'' ''Monoline'') \<in> set unfiltered_classified"
    by (simp add: unfiltered_classified_def)
  have c: "\<forall>p \<in> set unfiltered_book. Customer_Name p = Some ''Carol'' \<longrightarrow>
          Line_of_Business p
            \<notin> {Some ''Homeowners'', Some ''Private Passenger Auto'',
                Some ''Mobile Homeowners''}"
    by code_simp
  have f: "filter (\<lambda>p. Line_of_Business p = Some ''Homeowners''
                        \<or> Line_of_Business p = Some ''Private Passenger Auto''
                        \<or> Line_of_Business p = Some ''Mobile Homeowners'') unfiltered_book
             = [alice_home, alice_auto, bob_first]"
    by code_simp
  have l: "carol_lower_case \<in> set unfiltered_book" by (simp add: unfiltered_book_def)
  have l': "Line_of_Business carol_lower_case = Some ''homeowners''"
    by (simp add: carol_lower_case_def row_def)
  note a = filter_closure [of "range_index unfiltered_book" unfiltered_book
                              unfiltered_classified north_summary "''Carol''"]
  from a r f have a1: "map (\<lambda>(i, c). policy c) unfiltered_classified
                       = [alice_home, alice_auto, bob_first]" by simp
  from a r h have "Line_of_Business (policy (typed bob_first ''Monoline'' ''Monoline''))
        \<in> {Some ''Homeowners'', Some ''Private Passenger Auto'', Some ''Mobile Homeowners''}"
    by blast
  then have a2: "Line_of_Business bob_first
        \<in> {Some ''Homeowners'', Some ''Private Passenger Auto'', Some ''Mobile Homeowners''}"
    by (simp add: typed_def)
  from a c r have a3: "Some ''Carol'' \<notin> (\<lambda>(i, c). Customer_Name (policy c)) ` set unfiltered_classified
   \<and> analyse (filter (\<lambda>(i, p). Customer_Name p \<noteq> Some ''Carol'') (range_index unfiltered_book))
       = run unfiltered_book" by blast
  from r a1 h a2 l l' a3 show ?thesis by blast
qed

text \<open>
  Claim C8, as stated, fails in the double arithmetic of the float columns. With a
  Monoline count of 1 in 7 clients the percentages are the doubles nearest to 14.29 and
  to 100 minus that, which is 85.71000000000001, and their sum is not 100. With 23 in
  160 the exact percentage 14.375 rounds to 14.38, but the quotient times 100 is a
  double just below 14.375 and the column holds 14.37.
\<close>

theorem double_percentages_counterexample:
  "percent_columns 1 7 = (Fin (fl (1429 / 100)), Fin (fl (100 - fl (1429 / 100))))
   \<and> fl (1429 / 100) = 2011138708597637 / 140737488355328
   \<and> fl (100 - fl (1429 / 100)) = 3015652531733791 / 35184372088832
   \<and> fl (1429 / 100) + fl (100 - fl (1429 / 100)) \<noteq> 100
   \<and> percent_columns 23 160 = (Fin (fl (1437 / 100)), Fin (fl (100 - fl (1437 / 100))))
   \<and> exact_percent 23 160 = 14375 / 1000
   \<and> rint (exact_percent 23 160 * 100) = 1438"
  by code_simp

text \<open>
  Claim C8, amended. The two percentage columns of every division are computed from the
  Monoline and Total_Clients columns of the summary table. For a positive client count
  and counts below \<open>2 ^ 53\<close>, the Monoline percentage is the double nearest to a number
  with two decimals, and lies within \<open>0.005 + (7 p + 1) / 2 ^ 53\<close> of the exact
  percentage \<open>p\<close>; the Cross-Sold percentage is the double nearest to 100 minus the
  Monoline percentage, so that the two sum to 100 up to
  \<open>\<bar>100 - pct\<bar> / 2 ^ 53\<close>. With 10 clients and a Monoline count of 7 the
  percentages are exactly 70 and 30.
\<close>

theorem percentage_arithmetic:
  "(\<forall>s \<in> set (agency_summary df).
      (pct_Monoline s, pct_Cross_Sold s) = percent_columns (Monoline s) (Total_Clients s))
   \<and> (0 < t \<and> m < 2 ^ 53 \<and> t < 2 ^ 53 \<longrightarrow>
        (\<exists>a b. percent_columns m t = (Fin a, Fin b)
               \<and> (\<exists>k. a = fl (of_int k / 100))
               \<and> \<bar>a - exact_percent m t\<bar> \<le> 1 / 200 + (7 * exact_percent m t + 1) / 2 ^ 53
               \<and> b = fl (100 - a)
               \<and> \<bar>a + b - 100\<bar> \<le> \<bar>100 - a\<bar> / 2 ^ 53))
   \<and> percent_columns 7 10 = (Fin 70, Fin 30)"
proof (intro conjI ballI impI)
  fix s assume "s \<in> set (agency_summary df)"
  then show "(pct_Monoline s, pct_Cross_Sold s)
               = percent_columns (Monoline s) (Total_Clients s)"
    by (rule summary_percentages)
next
  assume h: "0 < t \<and> m < 2 ^ 53 \<and> t < 2 ^ 53"
  define a where
    "a = fl (of_int (rint (fl (fl (fl (of_nat m / of_nat t) * 100) * 100))) / 100)"
  define b where "b = fl (100 - a)"
  from h have v: "percent_columns m t = (Fin a, Fin b)"
    unfolding a_def b_def by (intro percent_columns_value) simp_all
  have k: "\<exists>k. a = fl (of_int k / 100)" unfolding a_def by blast
  have "(0::rat) \<le> of_nat m / of_nat t" by simp
  from rounded_percent_error [OF this]
  have e: "\<bar>a - exact_percent m t\<bar> \<le> 1 / 200 + (7 * exact_percent m t + 1) / 2 ^ 53"
    unfolding a_def exact_percent_def .
  have d: "a + b - 100 = b - (100 - a)" by simp
  have s: "\<bar>a + b - 100\<bar> \<le> \<bar>100 - a\<bar> / 2 ^ 53"
    unfolding d unfolding b_def by (rule fl_error)
  from v k e s b_def
  show "\<exists>a b. percent_columns m t = (Fin a, Fin b)
               \<and> (\<exists>k. a = fl (of_int k / 100))
               \<and> \<bar>a - exact_percent m t\<bar> \<le> 1 / 200 + (7 * exact_percent m t + 1) / 2 ^ 53
               \<and> b = fl (100 - a)
               \<and> \<bar>a + b - 100\<bar> \<le> \<bar>100 - a\<bar> / 2 ^ 53"
    by blast
next
  show "percent_columns 7 10 = (Fin 70, Fin 30)" by code_simp
qed

theorem percentage_arithmetic_witness:
  "\<lparr>Division_key = ''North'', Total_Clients = 2, Monoline = 1, Cross_Sold = 2,
     pct_Monoline = Fin 50, pct_Cross_Sold = Fin 50\<rparr> \<in> set (agency_summary north_classified)
   \<and> percent_columns 1 2 = (Fin 50, Fin 50)
   \<and> (0::nat) < 10 \<and> (7::nat) < 2 ^ 53 \<and> (10::nat) < 2 ^ 53
   \<and> percent_columns 7 10 = (Fin 70, Fin 30)
   \<and> \<bar>70 - exact_percent 7 10\<bar> \<le> 1 / 200 + (7 * exact_percent 7 10 + 1) / 2 ^ 53
   \<and> (30::rat) = fl (100 - 70)"
proof -
  let ?s = "\<lparr>Division_key = ''North'', Total_Clients = 2, Monoline = 1, Cross_Sold = 2,
     pct_Monoline = Fin 50, pct_Cross_Sold = Fin 50\<rparr>"
  have h: "?s \<in> set (agency_summary north_classified)" by code_simp
  have p: "(0::nat) < 10 \<and> (7::nat) < 2 ^ 53 \<and> (10::nat) < 2 ^ 53" by simp
  note a = percentage_arithmetic [of north_classified 10 7]
  from a h have "(pct_Monoline ?s, pct_Cross_Sold ?s)
                   = percent_columns (Monoline ?s) (Total_Clients ?s)" by blast
  then have a1: "percent_columns 1 2 = (Fin 50, Fin 50)" by simp
  from a have a2: "percent_columns 7 10 = (Fin 70, Fin 30)" by blast
  from a p obtain x y where xy: "percent_columns 7 10 = (Fin x, Fin y)"
    "\<bar>x - exact_percent 7 10\<bar> \<le> 1 / 200 + (7 * exact_percent 7 10 + 1) / 2 ^ 53"
    "y = fl (100 - x)" by blast
  from xy(1) a2 have "x = 70" "y = 30" by simp_all
  with xy(2,3) have a3: "\<bar>70 - exact_percent 7 10\<bar> \<le> 1 / 200 + (7 * exact_percent 7 10 + 1) / 2 ^ 53"
    "(30::rat) = fl (100 - 70)" by simp_all
  from h a1 p a2 a3 show ?thesis by blast
qed

text \<open>
  Claim C9 says that a division without clients gets 0.0 for both percentages. The
  percentage columns of the summary table have no such guard. A sheet on which the only
  row of division South has an empty customer name gives South a client count of 0 and
  a Monoline count of 0; dividing them raises nothing and both percentages are NaN.
\<close>

theorem nameless_division_percentages:
  "map_sum id (\<lambda>(cdf, summary).
       map (\<lambda>s. (Division_key s, Total_Clients s, Monoline s, pct_Monoline s, pct_Cross_Sold s))
         summary)
     (run [alice_home, bob_first, nameless_south])
     = Inr [(''North'', 2, 2, Fin 100, Fin 0), (''South'', 0, 0, NaN, NaN)]"
  by code_simp

text \<open>
  Claim C10. In a run that ends without an exception, a carrier account type of
  Cross-Sold on a row implies an account type of Cross-Sold on that row; the combination
  of Monoline at agency level with Cross-Sold at carrier level does not occur.
\<close>

theorem carrier_cross_sold_implies_agency_cross_sold:
  assumes "run recs = Inr (cdf, summary)" and "(i, c) \<in> set cdf"
    and "Carrier_Account_Type c = Some ''Cross-Sold''"
  shows "Account_Type c = Some ''Cross-Sold''
         \<and> \<not> (Account_Type c = Some ''Monoline'' \<and> Carrier_Account_Type c = Some ''Cross-Sold'')"
proof -
  from labels_of_row [OF assms(1,2)] assms(3)
  obtain g where g: "Account_Type c = Some (account_label g)"
    "Carrier_Account_Type c = Some (carrier_label g)" by auto
  with assms(3) have "carrier_label g = ''Cross-Sold''" by simp
  then have "account_label g = ''Cross-Sold''" by (rule carrier_implies_account)
  with g show ?thesis by simp
qed

theorem carrier_cross_sold_implies_agency_cross_sold_witness:
  "run north_book = Inr (north_classified, north_summary)
   \<and> (0, typed alice_home ''Cross-Sold'' ''Cross-Sold'') \<in> set north_classified
   \<and> Carrier_Account_Type (typed alice_home ''Cross-Sold'' ''Cross-Sold'') = Some ''Cross-Sold''
   \<and> Account_Type (typed alice_home ''Cross-Sold'' ''Cross-Sold'') = Some ''Cross-Sold''"
proof -
  have r: "run north_book = Inr (north_classified, north_summary)" by code_simp
  have h: "(0, typed alice_home ''Cross-Sold'' ''Cross-Sold'') \<in> set north_classified"
    by (simp add: north_classified_def)
  have c: "Carrier_Account_Type (typed alice_home ''Cross-Sold'' ''Cross-Sold'') = Some ''Cross-Sold''"
    by (simp add: typed_def)
  show ?thesis using carrier_cross_sold_implies_agency_cross_sold [OF r h c] r h c by blast
qed

end
